theory Spec2Isabelle
  imports Main "HOL-Library.Word"
begin

unbundle bit_operations_syntax

section \<open>Machine words and the constants of the bit-matrix library\<close>

text \<open>
  The kernel of \<^verbatim>\<open>mzd_additional.c\<close> works on the packed bit matrices of the m4ri
  library. Its \<^verbatim>\<open>word\<close> is an unsigned 64-bit integer. The embedding below is
  that of the portable configuration of the sources: the blocks guarded by
  \<^verbatim>\<open>WITH_OPT\<close> (the SSE2 and AVX2 variants) are compiled out, so that
  every operation runs the word-at-a-time code that follows the guarded dispatch.
\<close>

type_synonym mword = "64 word"

text \<open>
  Modelled from the spec: the header \<^verbatim>\<open>m4ri/m4ri.h\<close> is not part of the sources.
  The word width W is \<^verbatim>\<open>m4ri_radix\<close> = 64, \<^verbatim>\<open>m4ri_ffff\<close> is the word of all
  ones, and \<^verbatim>\<open>__M4RI_LEFT_BITMASK(n)\<close> is
  \<^verbatim>\<open>m4ri_ffff >> (m4ri_radix - n) % m4ri_radix\<close>: the bits at positions
  \<open>0 \<dots> n - 1\<close> for \<open>0 < n < W\<close>, and all ones for \<open>n = 0\<close>.
\<close>

definition m4ri_radix :: nat where
  "m4ri_radix = 64"

definition m4ri_ffff :: mword where
  "m4ri_ffff = - 1"

definition M4RI_LEFT_BITMASK :: "nat \<Rightarrow> mword" where
  "M4RI_LEFT_BITMASK n = drop_bit ((m4ri_radix - n) mod m4ri_radix) m4ri_ffff"

definition mzd_flag_nonzero_excess :: "8 word" where
  "mzd_flag_nonzero_excess = 0x2"

definition sizeof_word :: nat where
  "sizeof_word = 8"

definition avx_bound :: nat where
  "avx_bound = 256 div (8 * sizeof_word)"

definition mzd_flag_custom_layout :: "8 word" where
  "mzd_flag_custom_layout = 0x40"

section \<open>Matrices and the store\<close>

text \<open>
  The descriptor \<^verbatim>\<open>mzd_t\<close> with the fields the sources read and write.
  \<^verbatim>\<open>mzd_local_init\<close> puts the rows of a matrix one after the other in one
  buffer, row \<open>i\<close> starting \<open>i * rowstride\<close> words into it; \<open>data\<close> is that
  buffer and \<open>rows A i\<close> is the offset that the row pointer \<^verbatim>\<open>A->rows[i]\<close>
  stands for.
\<close>

record mzd_t =
  nrows :: nat
  ncols :: nat
  width :: nat
  rowstride :: nat
  flags :: "8 word"
  high_bitmask :: mword
  data :: "mword list"

definition rows :: "mzd_t \<Rightarrow> nat \<Rightarrow> nat" where
  "rows A i = i * rowstride A"

text \<open>
  Matrices are reached through pointers and are updated in place, and one matrix may be
  passed for several parameters of a call. The store maps an address to the matrix
  that lives there; \<open>brk\<close> is the next address the allocator hands out. A parameter
  that may be \<^verbatim>\<open>NULL\<close> is an \<open>option\<close>.
\<close>

type_synonym mzd_ptr = nat

record heap =
  mem :: "mzd_ptr \<Rightarrow> mzd_t"
  brk :: nat

definition rd :: "heap \<Rightarrow> mzd_ptr \<Rightarrow> nat \<Rightarrow> mword" where
  "rd h p i = data (mem h p) ! i"

definition wr :: "heap \<Rightarrow> mzd_ptr \<Rightarrow> nat \<Rightarrow> mword \<Rightarrow> heap" where
  "wr h p i x = h\<lparr>mem := (mem h)(p := (mem h p)\<lparr>data := (data (mem h p))[i := x]\<rparr>)\<rparr>"

definition alloc :: "mzd_t \<Rightarrow> heap \<Rightarrow> mzd_ptr \<times> heap" where
  "alloc A h = (brk h, h\<lparr>mem := (mem h)(brk h := A), brk := Suc (brk h)\<rparr>)"

subsection \<open>Allocation\<close>

text \<open>
  \<^verbatim>\<open>(x + 31) & ~31\<close> rounds \<open>x\<close> up to a multiple of 32, and likewise for 16.
\<close>

definition calculate_rowstride :: "nat \<Rightarrow> nat" where
  "calculate_rowstride wd =
     (if wd \<ge> avx_bound
      then ((wd * sizeof_word + 31) div 32 * 32) div sizeof_word
      else ((wd * sizeof_word + 15) div 16 * 16) div sizeof_word)"

definition mzd_local_init :: "nat \<Rightarrow> nat \<Rightarrow> heap \<Rightarrow> mzd_ptr \<times> heap" where
  "mzd_local_init r c h =
     (let wd = (c + m4ri_radix - 1) div m4ri_radix;
          rstride = calculate_rowstride wd;
          hmask = M4RI_LEFT_BITMASK (c mod m4ri_radix);
          flgs = mzd_flag_custom_layout OR
                 (if hmask \<noteq> m4ri_ffff then mzd_flag_nonzero_excess else 0)
      in alloc \<lparr>nrows = r, ncols = c, width = wd, rowstride = rstride, flags = flgs,
                 high_bitmask = hmask, data = replicate (r * rstride) 0\<rparr> h)"

text \<open>
  Modelled from the spec: \<^verbatim>\<open>mzd_local_init_ex\<close> and
  \<^verbatim>\<open>mzd_local_init_multiple_ex\<close> are called by \<^verbatim>\<open>mpc.c\<close> and are not part
  of the sources. They allocate as \<^verbatim>\<open>mzd_local_init\<close> and
  \<^verbatim>\<open>mzd_local_init_multiple\<close> do; their last argument says whether the buffer
  is zero-filled. When it is not, the buffer holds whatever the memory held before:
  \<open>junk\<close> gives that content, word by word.
\<close>

definition mzd_local_init_ex ::
  "nat \<Rightarrow> nat \<Rightarrow> bool \<Rightarrow> (nat \<Rightarrow> mword) \<Rightarrow> heap \<Rightarrow> mzd_ptr \<times> heap" where
  "mzd_local_init_ex r c clear junk h =
     (let wd = (c + m4ri_radix - 1) div m4ri_radix;
          rstride = calculate_rowstride wd;
          hmask = M4RI_LEFT_BITMASK (c mod m4ri_radix);
          flgs = mzd_flag_custom_layout OR
                 (if hmask \<noteq> m4ri_ffff then mzd_flag_nonzero_excess else 0)
      in alloc \<lparr>nrows = r, ncols = c, width = wd, rowstride = rstride, flags = flgs,
                 high_bitmask = hmask,
                 data = (if clear then replicate (r * rstride) 0
                         else map junk [0..<r * rstride])\<rparr> h)"

fun mzd_local_init_multiple_ex ::
  "nat \<Rightarrow> nat \<Rightarrow> nat \<Rightarrow> bool \<Rightarrow> (nat \<Rightarrow> nat \<Rightarrow> mword) \<Rightarrow> heap \<Rightarrow> mzd_ptr list \<times> heap" where
  "mzd_local_init_multiple_ex 0 r c clear junk h = ([], h)"
| "mzd_local_init_multiple_ex (Suc n) r c clear junk h =
     (let (dst, h) = mzd_local_init_multiple_ex n r c clear junk h;
          (A, h) = mzd_local_init_ex r c clear (junk n) h
      in (dst @ [A], h))"

subsection \<open>Copying and random filling\<close>

text \<open>
  Some runs leave what the embedding describes, and the functions that can take such a
  run return an \<open>option\<close>, \<open>None\<close> standing for it. There are two kinds: the
  call of \<^verbatim>\<open>mzd_copy\<close>, a routine of the m4ri library, in the last branch of
  \<^verbatim>\<open>mzd_local_copy\<close>; and a shift of a word by 64 or more positions, which C
  leaves undefined.

  \<^verbatim>\<open>memcpy\<close> reads its source before it writes (source and destination are rows
  of two different matrices here).
\<close>

definition memcpy :: "mzd_ptr \<Rightarrow> nat \<Rightarrow> mzd_ptr \<Rightarrow> nat \<Rightarrow> nat \<Rightarrow> heap \<Rightarrow> heap" where
  "memcpy d doff src soff n h =
     (let ws = map (\<lambda>j. rd h src (soff + j)) [0..<n]
      in fold (\<lambda>j h. wr h d (doff + j) (ws ! j)) [0..<n] h)"

definition mzd_local_copy ::
  "mzd_ptr option \<Rightarrow> mzd_ptr \<Rightarrow> heap \<Rightarrow> (mzd_ptr \<times> heap) option" where
  "mzd_local_copy dst0 src h0 =
     (if dst0 = Some src then Some (src, h0)
      else
        let (dst, h) = (case dst0 of
                          None \<Rightarrow> mzd_local_init (nrows (mem h0 src)) (ncols (mem h0 src)) h0
                        | Some d \<Rightarrow> (d, h0))
        in if flags (mem h dst) AND mzd_flag_custom_layout \<noteq> 0 \<and>
              nrows (mem h dst) \<ge> nrows (mem h src) \<and> ncols (mem h dst) = ncols (mem h src)
           then Some (dst,
                  fold (\<lambda>i h. memcpy dst (rows (mem h dst) i) src (rows (mem h src) i)
                                 (width (mem h src)) h)
                    [0..<nrows (mem h src)] h)
           else None)"

text \<open>
  Modelled from the spec: \<^verbatim>\<open>rand_bytes\<close> belongs to the random number generator
  and is not part of the sources. It fills a buffer of the given size; \<open>gen\<close> is what
  the generator delivers, word by word, and is a parameter of every function that
  draws random words.
\<close>

definition rand_bytes :: "mzd_ptr \<Rightarrow> nat \<Rightarrow> nat \<Rightarrow> (nat \<Rightarrow> mword) \<Rightarrow> heap \<Rightarrow> heap" where
  "rand_bytes p off n gen h = fold (\<lambda>j h. wr h p (off + j) (gen j)) [0..<n] h"

definition mzd_randomize_ssl :: "mzd_ptr \<Rightarrow> (nat \<Rightarrow> nat \<Rightarrow> mword) \<Rightarrow> heap \<Rightarrow> heap" where
  "mzd_randomize_ssl val gen h0 =
     (let mask_end = high_bitmask (mem h0 val)
      in fold (\<lambda>i h.
                 let h = rand_bytes val (rows (mem h val) i) (width (mem h val)) (gen i) h;
                     last = rows (mem h val) i + width (mem h val) - 1
                 in wr h val last (rd h val last AND mask_end))
           [0..<nrows (mem h0 val)] h0)"

subsection \<open>Shifts of a one-row vector\<close>

text \<open>
  The loops of the two shifts count \<open>i\<close> down from \<open>nwords - 1\<close> and move the two
  pointers; the functions below return the pointers with the store.
\<close>

fun mzd_shift_right_loop ::
  "nat \<Rightarrow> nat \<Rightarrow> nat \<Rightarrow> mzd_ptr \<Rightarrow> mzd_ptr \<Rightarrow> nat \<Rightarrow> nat \<Rightarrow> heap \<Rightarrow> nat \<times> nat \<times> heap" where
  "mzd_shift_right_loop 0 count left_count res val resptr valptr h = (resptr, valptr, h)"
| "mzd_shift_right_loop (Suc i) count left_count res val resptr valptr h =
     (let tmp = drop_bit count (rd h val valptr);
          valptr = Suc valptr;
          h = wr h res resptr (tmp OR push_bit left_count (rd h val valptr))
      in mzd_shift_right_loop i count left_count res val (Suc resptr) valptr h)"

definition mzd_shift_right :: "mzd_ptr \<Rightarrow> mzd_ptr \<Rightarrow> nat \<Rightarrow> heap \<Rightarrow> heap option" where
  "mzd_shift_right res val count h0 =
     (if count = 0 then map_option snd (mzd_local_copy (Some res) val h0)
      else if count \<ge> 8 * sizeof_word then None
      else
        let nwords = width (mem h0 val);
            left_count = 8 * sizeof_word - count;
            (resptr, valptr, h) =
               mzd_shift_right_loop (nwords - 1) count left_count res val
                 (rows (mem h0 res) 0) (rows (mem h0 val) 0) h0
        in Some (wr h res resptr (drop_bit count (rd h val valptr))))"

fun mzd_shift_left_loop ::
  "nat \<Rightarrow> nat \<Rightarrow> nat \<Rightarrow> mzd_ptr \<Rightarrow> mzd_ptr \<Rightarrow> nat \<Rightarrow> nat \<Rightarrow> heap \<Rightarrow> nat \<times> nat \<times> heap" where
  "mzd_shift_left_loop 0 count right_count res val resptr valptr h = (resptr, valptr, h)"
| "mzd_shift_left_loop (Suc i) count right_count res val resptr valptr h =
     (let tmp = push_bit count (rd h val valptr);
          valptr = valptr - 1;
          h = wr h res resptr (tmp OR drop_bit right_count (rd h val valptr))
      in mzd_shift_left_loop i count right_count res val (resptr - 1) valptr h)"

definition mzd_shift_left :: "mzd_ptr \<Rightarrow> mzd_ptr \<Rightarrow> nat \<Rightarrow> heap \<Rightarrow> heap option" where
  "mzd_shift_left res val count h0 =
     (if count = 0 then map_option snd (mzd_local_copy (Some res) val h0)
      else if count \<ge> 8 * sizeof_word then None
      else
        let nwords = width (mem h0 val);
            right_count = 8 * sizeof_word - count;
            (resptr, valptr, h) =
               mzd_shift_left_loop (nwords - 1) count right_count res val
                 (rows (mem h0 res) 0 + nwords - 1) (rows (mem h0 val) 0 + nwords - 1) h0
        in Some (wr h res resptr (push_bit count (rd h val valptr))))"

subsection \<open>Element-wise XOR and AND\<close>

text \<open>
  \<^verbatim>\<open>while (width--) { *resptr++ = *firstptr++ ^ *secondptr++; }\<close> with the three
  pointers starting at row 0: the first argument counts the words left, the second is
  the distance the pointers have advanced.
\<close>

fun mzd_xor_loop :: "nat \<Rightarrow> nat \<Rightarrow> mzd_ptr \<Rightarrow> mzd_ptr \<Rightarrow> mzd_ptr \<Rightarrow> heap \<Rightarrow> heap" where
  "mzd_xor_loop 0 i res first second h = h"
| "mzd_xor_loop (Suc n) i res first second h =
     mzd_xor_loop n (Suc i) res first second
       (wr h res (rows (mem h res) 0 + i)
          (rd h first (rows (mem h first) 0 + i) XOR rd h second (rows (mem h second) 0 + i)))"

definition mzd_xor :: "mzd_ptr option \<Rightarrow> mzd_ptr \<Rightarrow> mzd_ptr \<Rightarrow> heap \<Rightarrow> mzd_ptr \<times> heap" where
  "mzd_xor res0 first second h0 =
     (let (res, h) = (case res0 of None \<Rightarrow> mzd_local_init 1 (ncols (mem h0 first)) h0
                                 | Some p \<Rightarrow> (p, h0));
          wd = width (mem h first);
          mask = high_bitmask (mem h first);
          h = mzd_xor_loop wd 0 res first second h;
          last = rows (mem h res) 0 + wd - 1
      in (res, wr h res last (rd h res last AND mask)))"

fun mzd_and_loop :: "nat \<Rightarrow> nat \<Rightarrow> mzd_ptr \<Rightarrow> mzd_ptr \<Rightarrow> mzd_ptr \<Rightarrow> heap \<Rightarrow> heap" where
  "mzd_and_loop 0 i res first second h = h"
| "mzd_and_loop (Suc n) i res first second h =
     mzd_and_loop n (Suc i) res first second
       (wr h res (rows (mem h res) 0 + i)
          (rd h first (rows (mem h first) 0 + i) AND rd h second (rows (mem h second) 0 + i)))"

definition mzd_and :: "mzd_ptr option \<Rightarrow> mzd_ptr \<Rightarrow> mzd_ptr \<Rightarrow> heap \<Rightarrow> mzd_ptr \<times> heap" where
  "mzd_and res0 first second h0 =
     (let (res, h) = (case res0 of None \<Rightarrow> mzd_local_init 1 (ncols (mem h0 first)) h0
                                 | Some p \<Rightarrow> (p, h0));
          wd = width (mem h first);
          mask = high_bitmask (mem h first);
          h = mzd_and_loop wd 0 res first second h;
          last = rows (mem h res) 0 + wd - 1
      in (res, wr h res last (rd h res last AND mask)))"

subsection \<open>Vector by matrix\<close>

text \<open>
  \<^verbatim>\<open>mzd_row_clear_offset\<close> is a routine of the m4ri library: it clears a row from
  a column on. It keeps the bits of the row below that column, stores 0 in the rest of
  the word the column lies in and in every later word of the row. The sources call it
  on row 0 and column 0 only.
\<close>

definition mzd_row_clear_offset :: "mzd_ptr \<Rightarrow> nat \<Rightarrow> nat \<Rightarrow> heap \<Rightarrow> heap" where
  "mzd_row_clear_offset M row coloffset h0 =
     (let startblock = coloffset div m4ri_radix;
          first = rows (mem h0 M) row + startblock;
          temp = (if coloffset mod m4ri_radix \<noteq> 0
                  then rd h0 M first AND M4RI_LEFT_BITMASK (coloffset mod m4ri_radix)
                  else 0)
      in fold (\<lambda>i h. wr h M (rows (mem h M) row + i) 0)
           [startblock + 1..<width (mem h0 M)] (wr h0 M first temp))"

text \<open>
  The innermost loop of \<^verbatim>\<open>mzd_addmul_v\<close>,
  \<^verbatim>\<open>for (i = 0; i < len - 1; ++i) cptr[i] ^= Aptr[i];\<close>.
\<close>

fun mzd_addmul_v_row :: "nat \<Rightarrow> nat \<Rightarrow> mzd_ptr \<Rightarrow> nat \<Rightarrow> mzd_ptr \<Rightarrow> nat \<Rightarrow> heap \<Rightarrow> heap" where
  "mzd_addmul_v_row 0 i c cptr A aptr h = h"
| "mzd_addmul_v_row (Suc n) i c cptr A aptr h =
     mzd_addmul_v_row n (Suc i) c cptr A aptr
       (wr h c (cptr + i) (rd h c (cptr + i) XOR rd h A (aptr + i)))"

text \<open>
  The loop \<^verbatim>\<open>while (idx) { ...; Aptr += rowstride; idx >>= 1; }\<close> over the bits of
  one word of \<open>v\<close>.
\<close>

function mzd_addmul_v_bits ::
  "mword \<Rightarrow> nat \<Rightarrow> nat \<Rightarrow> mword \<Rightarrow> nat \<Rightarrow> mzd_ptr \<Rightarrow> nat \<Rightarrow> mzd_ptr \<Rightarrow> heap \<Rightarrow> heap" where
  "mzd_addmul_v_bits idx aptr len msk rstride c cptr A h =
     (if idx = 0 then h
      else mzd_addmul_v_bits (drop_bit 1 idx) (aptr + rstride) len msk rstride c cptr A
             (if idx AND 1 \<noteq> 0
              then let h1 = mzd_addmul_v_row (len - 1) 0 c cptr A aptr h
                   in wr h1 c (cptr + (len - 1))
                        ((rd h1 c (cptr + (len - 1)) XOR rd h1 A (aptr + (len - 1))) AND msk)
              else h))"
  by pat_completeness auto
termination
proof (relation "measure (\<lambda>(idx, _). unat idx)")
  show "wf (measure (\<lambda>(idx :: mword, _ :: nat \<times> nat \<times> mword \<times> nat \<times> mzd_ptr \<times> nat \<times> mzd_ptr \<times> heap). unat idx))"
    by simp
next
  fix idx :: mword and aptr len :: nat and msk :: mword and rstride c cptr A :: nat and h :: heap
  assume nz: "idx \<noteq> 0"
  have "unat idx \<noteq> 0" using nz by (simp add: unat_eq_0)
  then have "unat idx div 2 < unat idx" by simp
  then have "unat (drop_bit 1 idx) < unat idx" by (simp add: drop_bit_eq_div unat_div)
  then show "((drop_bit 1 idx, aptr + rstride, len, msk, rstride, c, cptr, A,
               if idx AND 1 \<noteq> 0
               then let h1 = mzd_addmul_v_row (len - 1) 0 c cptr A aptr h
                    in wr h1 c (cptr + (len - 1))
                         ((rd h1 c (cptr + (len - 1)) XOR rd h1 A (aptr + (len - 1))) AND msk)
               else h),
              idx, aptr, len, msk, rstride, c, cptr, A, h)
             \<in> measure (\<lambda>(idx, _). unat idx)"
    by simp
qed

text \<open>
  The loop \<^verbatim>\<open>for (w = 0; w < width; ++w, ++vptr)\<close> over the words of \<open>v\<close>: the
  first argument counts the words left.
\<close>

fun mzd_addmul_v_words ::
  "nat \<Rightarrow> nat \<Rightarrow> nat \<Rightarrow> mword \<Rightarrow> nat \<Rightarrow> mzd_ptr \<Rightarrow> nat \<Rightarrow> mzd_ptr \<Rightarrow> nat \<Rightarrow> mzd_ptr \<Rightarrow> heap \<Rightarrow> heap" where
  "mzd_addmul_v_words 0 w len msk rstride c cptr v vptr A h = h"
| "mzd_addmul_v_words (Suc n) w len msk rstride c cptr v vptr A h =
     (let idx = rd h v vptr;
          aptr = rows (mem h A) (w * sizeof_word * 8)
      in mzd_addmul_v_words n (Suc w) len msk rstride c cptr v (Suc vptr) A
           (mzd_addmul_v_bits idx aptr len msk rstride c cptr A h))"

definition mzd_addmul_v :: "mzd_ptr \<Rightarrow> mzd_ptr \<Rightarrow> mzd_ptr \<Rightarrow> heap \<Rightarrow> mzd_ptr option \<times> heap" where
  "mzd_addmul_v c v A h =
     (if ncols (mem h A) \<noteq> ncols (mem h c) \<or> nrows (mem h A) \<noteq> ncols (mem h v)
      then (None, h)
      else
        let len = width (mem h A);
            mask = high_bitmask (mem h A);
            rstride = rowstride (mem h A);
            cptr = rows (mem h c) 0;
            vptr = rows (mem h v) 0;
            wd = width (mem h v)
        in (Some c, mzd_addmul_v_words wd 0 len mask rstride c cptr v vptr A h))"

definition mzd_mul_v :: "mzd_ptr option \<Rightarrow> mzd_ptr \<Rightarrow> mzd_ptr \<Rightarrow> heap \<Rightarrow> mzd_ptr option \<times> heap" where
  "mzd_mul_v c0 v At h0 =
     (if nrows (mem h0 At) \<noteq> ncols (mem h0 v) then (None, h0)
      else
        let (c, h) = (case c0 of
                        None \<Rightarrow> mzd_local_init 1 (ncols (mem h0 At)) h0
                      | Some c \<Rightarrow> (c, mzd_row_clear_offset c 0 0 h0))
        in mzd_addmul_v c v At h)"

section \<open>The share layer\<close>

text \<open>
  Modelled from the spec: the header \<^verbatim>\<open>mpc.h\<close> is not part of the sources. The
  prover runs \<^verbatim>\<open>SC_PROOF\<close> = 3 parties and the verifier \<^verbatim>\<open>SC_VERIFY\<close> = 2, and
  a view \<^verbatim>\<open>view_t\<close> holds \<open>s\<close>, three pointers to vectors. A share vector
  (\<^verbatim>\<open>mzd_t**\<close>) is the list of its pointers.
\<close>

definition SC_PROOF :: nat where
  "SC_PROOF = 3"

definition SC_VERIFY :: nat where
  "SC_VERIFY = 2"

record view_t =
  s :: "mzd_ptr list"

definition mpc_shift_right ::
  "mzd_ptr list \<Rightarrow> mzd_ptr list \<Rightarrow> nat \<Rightarrow> nat \<Rightarrow> heap \<Rightarrow> heap option" where
  "mpc_shift_right res val count sc h0 =
     fold (\<lambda>i ho. Option.bind ho (mzd_shift_right (res ! i) (val ! i) count)) [0..<sc] (Some h0)"

definition mpc_shift_left ::
  "mzd_ptr list \<Rightarrow> mzd_ptr list \<Rightarrow> nat \<Rightarrow> nat \<Rightarrow> heap \<Rightarrow> heap option" where
  "mpc_shift_left res val count sc h0 =
     fold (\<lambda>i ho. Option.bind ho (mzd_shift_left (res ! i) (val ! i) count)) [0..<sc] (Some h0)"

definition mpc_xor :: "mzd_ptr list \<Rightarrow> mzd_ptr list \<Rightarrow> mzd_ptr list \<Rightarrow> nat \<Rightarrow> heap \<Rightarrow> heap" where
  "mpc_xor res first second sc h0 =
     fold (\<lambda>i h. snd (mzd_xor (Some (res ! i)) (first ! i) (second ! i) h)) [0..<sc] h0"

text \<open>
  The body of the first loop of \<^verbatim>\<open>mpc_and\<close> and of \<^verbatim>\<open>mpc_and_verify\<close>, for
  party \<open>m\<close> and its neighbour \<open>j\<close>; \<open>b\<close> is the scratch vector
  \<^verbatim>\<open>buffer[0]\<close>.
\<close>

definition mpc_and_party ::
  "nat \<Rightarrow> nat \<Rightarrow> mzd_ptr list \<Rightarrow> mzd_ptr list \<Rightarrow> mzd_ptr list \<Rightarrow> mzd_ptr list \<Rightarrow> mzd_ptr \<Rightarrow>
   heap \<Rightarrow> heap" where
  "mpc_and_party m j res first second r b h0 =
     (let h = snd (mzd_and (Some (res ! m)) (first ! m) (second ! m) h0);
          h = snd (mzd_and (Some b) (first ! j) (second ! m) h);
          h = snd (mzd_xor (Some (res ! m)) (res ! m) b h);
          h = snd (mzd_and (Some b) (first ! m) (second ! j) h);
          h = snd (mzd_xor (Some (res ! m)) (res ! m) b h);
          h = snd (mzd_xor (Some (res ! m)) (res ! m) (r ! m) h)
      in snd (mzd_xor (Some (res ! m)) (res ! m) (r ! j) h))"

definition mpc_and ::
  "mzd_ptr list \<Rightarrow> mzd_ptr list \<Rightarrow> mzd_ptr list \<Rightarrow> mzd_ptr list \<Rightarrow> view_t \<Rightarrow> nat \<Rightarrow>
   mzd_ptr list \<Rightarrow> heap \<Rightarrow> heap option" where
  "mpc_and res first second r view viewshift buffer h0 =
     (let b = buffer ! 0;
          h = fold (\<lambda>m h. mpc_and_party m ((m + 1) mod SC_PROOF) res first second r b h)
                [0..<SC_PROOF] h0
      in case mpc_shift_right buffer res viewshift SC_PROOF h of
           None \<Rightarrow> None
         | Some h \<Rightarrow> Some (mpc_xor (s view) (s view) buffer SC_PROOF h))"

definition mpc_and_verify ::
  "mzd_ptr list \<Rightarrow> mzd_ptr list \<Rightarrow> mzd_ptr list \<Rightarrow> mzd_ptr list \<Rightarrow> view_t \<Rightarrow> mzd_ptr \<Rightarrow> nat \<Rightarrow>
   mzd_ptr list \<Rightarrow> heap \<Rightarrow> heap option" where
  "mpc_and_verify res first second r view msk viewshift buffer h0 =
     (let b = buffer ! 0;
          h = fold (\<lambda>m h. mpc_and_party m (m + 1) res first second r b h)
                [0..<SC_VERIFY - 1] h0;
          ho = fold (\<lambda>m ho. case ho of
                               None \<Rightarrow> None
                             | Some h \<Rightarrow>
                                 (case mzd_shift_right b (res ! m) viewshift h of
                                    None \<Rightarrow> None
                                  | Some h \<Rightarrow>
                                      Some (snd (mzd_xor (Some (s view ! m)) (s view ! m) b h))))
                 [0..<SC_VERIFY - 1] (Some h)
      in case ho of
           None \<Rightarrow> None
         | Some h \<Rightarrow>
             (case mzd_shift_left (res ! (SC_VERIFY - 1)) (s view ! (SC_VERIFY - 1)) viewshift h of
                None \<Rightarrow> None
              | Some h \<Rightarrow>
                  Some (snd (mzd_and (Some (res ! (SC_VERIFY - 1))) (res ! (SC_VERIFY - 1))
                               msk h))))"

definition mpc_const_add ::
  "mzd_ptr list \<Rightarrow> mzd_ptr list \<Rightarrow> mzd_ptr \<Rightarrow> nat \<Rightarrow> nat \<Rightarrow> heap \<Rightarrow> mzd_ptr list \<times> heap" where
  "mpc_const_add result first second sc c h =
     (if c = 0 then (result, snd (mzd_xor (Some (result ! 0)) (first ! 0) second h))
      else if c = sc
        then (result, snd (mzd_xor (Some (result ! (sc - 1))) (first ! (sc - 1)) second h))
      else (result, h))"

definition mpc_reconstruct_from_share ::
  "mzd_ptr option \<Rightarrow> mzd_ptr list \<Rightarrow> (nat \<Rightarrow> mword) \<Rightarrow> heap \<Rightarrow> mzd_ptr \<times> heap" where
  "mpc_reconstruct_from_share dst0 shared_vec junk h0 =
     (let (dst, h) = (case dst0 of
                        None \<Rightarrow> mzd_local_init_ex (nrows (mem h0 (shared_vec ! 0)))
                                  (ncols (mem h0 (shared_vec ! 0))) False junk h0
                      | Some d \<Rightarrow> (d, h0));
          h = snd (mzd_xor (Some dst) (shared_vec ! 0) (shared_vec ! 1) h)
      in mzd_xor (Some dst) dst (shared_vec ! 2) h)"

definition mpc_init_share_vector ::
  "mzd_ptr \<Rightarrow> (nat \<Rightarrow> nat \<Rightarrow> mword) \<Rightarrow> (nat \<Rightarrow> nat \<Rightarrow> mword) \<Rightarrow> (nat \<Rightarrow> nat \<Rightarrow> mword) \<Rightarrow> heap \<Rightarrow>
   mzd_ptr list \<times> heap" where
  "mpc_init_share_vector v junk gen0 gen1 h0 =
     (let (sv, h) = mzd_local_init_multiple_ex 3 1 (ncols (mem h0 v)) False junk h0;
          h = mzd_randomize_ssl (sv ! 0) gen0 h;
          h = mzd_randomize_ssl (sv ! 1) gen1 h;
          h = snd (mzd_xor (Some (sv ! 2)) (sv ! 0) (sv ! 1) h);
          h = snd (mzd_xor (Some (sv ! 2)) (sv ! 2) v h)
      in (sv, h))"

section \<open>Well-formed matrices and the words of a vector\<close>

text \<open>
  The number of words of a row of \<open>n\<close> columns and the mask of its last word, as
  \<^verbatim>\<open>mzd_local_init\<close> computes them; \<open>lastmask n i\<close> is the mask that a masked
  operation applies to word \<open>i\<close>: the high bitmask on the last word, nothing elsewhere.
\<close>

definition nwords :: "nat \<Rightarrow> nat" where
  "nwords n = (n + m4ri_radix - 1) div m4ri_radix"

definition hmask :: "nat \<Rightarrow> mword" where
  "hmask n = M4RI_LEFT_BITMASK (n mod m4ri_radix)"

definition lastmask :: "nat \<Rightarrow> nat \<Rightarrow> mword" where
  "lastmask n i = (if Suc i = nwords n then hmask n else - 1)"

text \<open>
  A matrix as the data model has it and as \<^verbatim>\<open>mzd_local_init\<close> lays it out: at
  least one row and one column, the derived fields as the allocator sets them, and a
  buffer of \<open>nrows * rowstride\<close> words. \<open>vec_ok n h p\<close>: a vector of \<open>n\<close> columns
  lives at \<open>p\<close>. \<open>padding_ok\<close> is the padding invariant: the bits of the last word
  of each row beyond the last column are zero.
\<close>

definition mzd_wf :: "mzd_t \<Rightarrow> bool" where
  "mzd_wf A \<longleftrightarrow>
     0 < nrows A \<and> 0 < ncols A \<and> width A = nwords (ncols A) \<and>
     rowstride A = calculate_rowstride (width A) \<and>
     high_bitmask A = hmask (ncols A) \<and>
     flags A AND mzd_flag_custom_layout \<noteq> 0 \<and>
     length (data A) = nrows A * rowstride A"

definition vec_ok :: "nat \<Rightarrow> heap \<Rightarrow> mzd_ptr \<Rightarrow> bool" where
  "vec_ok n h p \<longleftrightarrow> mzd_wf (mem h p) \<and> nrows (mem h p) = 1 \<and> ncols (mem h p) = n"

definition padding_ok :: "mzd_t \<Rightarrow> bool" where
  "padding_ok A \<longleftrightarrow>
     list_all (\<lambda>i. data A ! (rows A i + width A - 1) AND NOT (high_bitmask A) = 0)
       [0..<nrows A]"

text \<open>The words of row 0, and the store with them replaced.\<close>

definition vec :: "heap \<Rightarrow> mzd_ptr \<Rightarrow> mword list" where
  "vec h p = take (width (mem h p)) (data (mem h p))"

definition put_data :: "heap \<Rightarrow> mzd_ptr \<Rightarrow> mword list \<Rightarrow> heap" where
  "put_data h p d = h\<lparr>mem := (mem h)(p := (mem h p)\<lparr>data := d\<rparr>)\<rparr>"

definition put_row0 :: "heap \<Rightarrow> mzd_ptr \<Rightarrow> mword list \<Rightarrow> heap" where
  "put_row0 h p ws = put_data h p (ws @ drop (length ws) (data (mem h p)))"

text \<open>
  Word-by-word XOR and AND of two vectors of \<open>n\<close> columns, the last word masked.
\<close>

definition wxor :: "nat \<Rightarrow> mword list \<Rightarrow> mword list \<Rightarrow> mword list" where
  "wxor n xs ys = map (\<lambda>i. (xs ! i XOR ys ! i) AND lastmask n i) [0..<nwords n]"

definition wand :: "nat \<Rightarrow> mword list \<Rightarrow> mword list \<Rightarrow> mword list" where
  "wand n xs ys = map (\<lambda>i. (xs ! i AND ys ! i) AND lastmask n i) [0..<nwords n]"

text \<open>
  The two shifts of a vector of \<open>n\<close> columns by \<open>k\<close> positions, word by word: to
  the right, word \<open>i\<close> is \<open>(v[i] >> k) | (v[i+1] << (W - k))\<close> and the last word is
  \<open>v[last] >> k\<close>; to the left, word \<open>i\<close> is
  \<open>(v[i] << k) | (v[i-1] >> (W - k))\<close> and the first word is \<open>v[0] << k\<close>.
\<close>

definition wshr :: "nat \<Rightarrow> nat \<Rightarrow> mword list \<Rightarrow> mword list" where
  "wshr n k xs =
     map (\<lambda>i. if Suc i < nwords n
               then drop_bit k (xs ! i) OR push_bit (m4ri_radix - k) (xs ! Suc i)
               else drop_bit k (xs ! i)) [0..<nwords n]"

definition wshl :: "nat \<Rightarrow> nat \<Rightarrow> mword list \<Rightarrow> mword list" where
  "wshl n k xs =
     map (\<lambda>i. if 0 < i
               then push_bit k (xs ! i) OR drop_bit (m4ri_radix - k) (xs ! (i - 1))
               else push_bit k (xs ! i)) [0..<nwords n]"

text \<open>
  Concrete matrices and stores, for evaluating the functions on examples: the matrix of
  \<open>r\<close> rows and \<open>c\<close> columns as the allocator describes it, holding the given words
  (zero beyond them), and the store with the given matrices at the addresses
  \<open>0, 1, \<dots>\<close>.
\<close>

definition mk_mzd :: "nat \<Rightarrow> nat \<Rightarrow> mword list \<Rightarrow> mzd_t" where
  "mk_mzd r c ws =
     \<lparr>nrows = r, ncols = c, width = nwords c, rowstride = calculate_rowstride (nwords c),
      flags = mzd_flag_custom_layout OR
              (if hmask c \<noteq> m4ri_ffff then mzd_flag_nonzero_excess else 0),
      high_bitmask = hmask c,
      data = take (r * calculate_rowstride (nwords c))
               (ws @ replicate (r * calculate_rowstride (nwords c) - length ws) 0)\<rparr>"

definition mk_heap :: "mzd_t list \<Rightarrow> heap" where
  "mk_heap As = \<lparr>mem = (\<lambda>p. if p < length As then As ! p else mk_mzd 1 1 []), brk = length As\<rparr>"

text \<open>
  Seven vectors of 64 columns: three result slots, three shares and a constant.
\<close>

definition const_add_heap :: heap where
  "const_add_heap =
     mk_heap [mk_mzd 1 64 [0], mk_mzd 1 64 [0], mk_mzd 1 64 [0],
              mk_mzd 1 64 [5], mk_mzd 1 64 [6], mk_mzd 1 64 [1], mk_mzd 1 64 [2]]"

text \<open>
  Stores for the shifts: a destination at 0 and the vector
  \<open>[0x8000000000000001, 0x0000000000000002]\<close> of 128 columns at 1; three vectors of
  64 columns holding \<open>[1]\<close>, \<open>[0]\<close>, \<open>[0]\<close> and a fourth holding \<open>[6]\<close>;
  a vector of 30 columns whose last column is set, with a destination.
\<close>

definition shift_heap :: heap where
  "shift_heap = mk_heap [mk_mzd 1 128 [0, 0], mk_mzd 1 128 [0x8000000000000001, 0x2]]"

definition roundtrip_heap :: heap where
  "roundtrip_heap = mk_heap [mk_mzd 1 64 [1], mk_mzd 1 64 [0], mk_mzd 1 64 [0], mk_mzd 1 64 [6]]"

definition pad_heap :: heap where
  "pad_heap = mk_heap [mk_mzd 1 30 [0x20000000], mk_mzd 1 30 [0]]"

text \<open>
  The words that \<^verbatim>\<open>mzd_addmul_v\<close> leaves in its destination. \<open>arow A off len\<close>
  are the \<open>len\<close> words of the buffer of \<open>A\<close> from offset \<open>off\<close> on, what the
  pointer \<^verbatim>\<open>Aptr\<close> reads. \<open>bits_words\<close> follows the bits \<open>0 \<dots> m - 1\<close> of one
  word \<open>idx\<close> of the vector: for each set bit \<open>j\<close> the row at
  \<open>aptr + j * rowstride\<close> is added, the last word masked. \<open>addmul_words\<close> does so
  for the words \<open>w \<dots> w + n - 1\<close> of the vector.
\<close>

definition arow :: "mzd_t \<Rightarrow> nat \<Rightarrow> nat \<Rightarrow> mword list" where
  "arow A off len = map (\<lambda>i. data A ! (off + i)) [0..<len]"



text \<open>
  A store for the product: a vector of 64 columns holding \<open>[5]\<close> as destination, a
  vector of 64 columns, and a matrix of 64 rows and 128 columns.
\<close>

definition clear_heap :: heap where
  "clear_heap = mk_heap [mk_mzd 1 64 [5], mk_mzd 1 64 [1], mk_mzd 64 128 []]"

text \<open>
  The AND gate. \<open>party_words\<close> is what party \<open>m\<close> with neighbour \<open>j\<close> computes
  from the words of its operands,
  \<open>(a[m] AND b[m]) XOR (a[j] AND b[m]) XOR (a[m] AND b[j]) XOR r[m] XOR r[j]\<close>,
  the last word masked; \<open>party_vec\<close> reads the operands from the store.
\<close>

definition party_words ::
  "nat \<Rightarrow> mword list \<Rightarrow> mword list \<Rightarrow> mword list \<Rightarrow> mword list \<Rightarrow> mword list \<Rightarrow> mword list \<Rightarrow> mword list" where
  "party_words n am aj bm bj rm rj =
     map (\<lambda>i. ((am ! i AND bm ! i) XOR (aj ! i AND bm ! i) XOR (am ! i AND bj ! i) XOR
                rm ! i XOR rj ! i) AND lastmask n i) [0..<nwords n]"

definition party_vec ::
  "nat \<Rightarrow> heap \<Rightarrow> mzd_ptr list \<Rightarrow> mzd_ptr list \<Rightarrow> mzd_ptr list \<Rightarrow> nat \<Rightarrow> nat \<Rightarrow> mword list" where
  "party_vec n h first second r m j =
     party_words n (vec h (first ! m)) (vec h (first ! j)) (vec h (second ! m))
       (vec h (second ! j)) (vec h (r ! m)) (vec h (r ! j))"

text \<open>
  \<open>upd_only P h h'\<close>: from \<open>h\<close> to \<open>h'\<close> nothing was allocated, no matrix
  outside \<open>P\<close> changed, and every matrix kept its shape.
\<close>

definition upd_only :: "mzd_ptr set \<Rightarrow> heap \<Rightarrow> heap \<Rightarrow> bool" where
  "upd_only P h h' \<longleftrightarrow>
     brk h' = brk h \<and> (\<forall>q. q \<notin> P \<longrightarrow> mem h' q = mem h q) \<and>
     (\<forall>q m. vec_ok m h' q = vec_ok m h q)"

text \<open>
  The operands of the prover's AND gate: six triples of vectors of \<open>n\<close> columns. The
  vectors that the gate writes (the results, the buffers and the views) are pairwise
  different, and no operand that it reads is a result or the scratch vector
  \<^verbatim>\<open>buffer[0]\<close>.
\<close>

definition and_operands ::
  "nat \<Rightarrow> heap \<Rightarrow> mzd_ptr list \<Rightarrow> mzd_ptr list \<Rightarrow> mzd_ptr list \<Rightarrow> mzd_ptr list \<Rightarrow> view_t \<Rightarrow>
   mzd_ptr list \<Rightarrow> bool" where
  "and_operands n h res first second r view buffer \<longleftrightarrow>
     length res = SC_PROOF \<and> length first = SC_PROOF \<and> length second = SC_PROOF \<and>
     length r = SC_PROOF \<and> length buffer = SC_PROOF \<and> length (s view) = SC_PROOF \<and>
     list_all (vec_ok n h) (res @ first @ second @ r @ buffer @ s view) \<and>
     distinct (res @ buffer @ s view) \<and>
     set (first @ second @ r) \<inter> (set res \<union> {buffer ! 0}) = {}"

text \<open>
  The words of a vector of \<open>n\<close> columns satisfy the padding invariant.
\<close>

definition clean :: "nat \<Rightarrow> mword list \<Rightarrow> bool" where
  "clean n ws \<longleftrightarrow> ws ! (nwords n - 1) AND NOT (hmask n) = 0"

text \<open>
  The store of the spec's scenario for the AND gate, on vectors of one column: results
  at 0, 1, 2; the shares of \<open>a\<close> at 3, 4, 5 and of \<open>b\<close> at 6, 7, 8, each the vector
  \<open>1\<close>; the masks \<open>r\<close> at 9, 10, 11, the buffers at 12, 13, 14 and the views at
  15, 16, 17, all zero.
\<close>

definition gate_heap :: heap where
  "gate_heap = mk_heap (map (mk_mzd 1 1)
     [[0], [0], [0], [1], [1], [1], [1], [1], [1], [0], [0], [0], [0], [0], [0], [0], [0], [0]])"

text \<open>One secret vector of 128 columns, the only matrix of its store.\<close>

definition secret_heap :: heap where
  "secret_heap = mk_heap [mk_mzd 1 128 [0x0123456789abcdef, 0xfedcba9876543210]]"

text \<open>
  The operands of the verifier's AND gate. Only the first \<open>SC_VERIFY\<close> entries of the
  triples are used: vectors of \<open>n\<close> columns, as are \<^verbatim>\<open>buffer[0]\<close> and the mask. The
  vectors that the gate writes or reads back (the results, the views and the scratch
  vector) are pairwise different, no input share is \<^verbatim>\<open>res[0]\<close> or the scratch vector,
  and the mask is none of the vectors written.
\<close>

definition verify_operands ::
  "nat \<Rightarrow> heap \<Rightarrow> mzd_ptr list \<Rightarrow> mzd_ptr list \<Rightarrow> mzd_ptr list \<Rightarrow> mzd_ptr list \<Rightarrow> view_t \<Rightarrow>
   mzd_ptr \<Rightarrow> mzd_ptr list \<Rightarrow> bool" where
  "verify_operands n h res first second r view msk buffer \<longleftrightarrow>
     SC_VERIFY \<le> length res \<and> SC_VERIFY \<le> length first \<and> SC_VERIFY \<le> length second \<and>
     SC_VERIFY \<le> length r \<and> SC_VERIFY \<le> length (s view) \<and> 0 < length buffer \<and>
     list_all (vec_ok n h)
       (take SC_VERIFY res @ take SC_VERIFY first @ take SC_VERIFY second @ take SC_VERIFY r @
        take SC_VERIFY (s view) @ [buffer ! 0, msk]) \<and>
     distinct (take SC_VERIFY res @ take SC_VERIFY (s view) @ [buffer ! 0]) \<and>
     set (take SC_VERIFY first @ take SC_VERIFY second @ take SC_VERIFY r) \<inter>
       {res ! 0, buffer ! 0} = {} \<and>
     msk \<notin> {res ! 0, res ! 1, s view ! 0, buffer ! 0}"

text \<open>
  A store for the verifier's gate, on vectors of 64 columns: results at 0 and 1, the
  shares of \<open>a\<close> at 2, 3 and of \<open>b\<close> at 4, 5, the masks \<open>r\<close> at 6, 7, the scratch
  vector at 8, the views at 9 and 10 and the bit mask at 11.
\<close>

definition verify_heap :: heap where
  "verify_heap = mk_heap (map (mk_mzd 1 64)
     [[0], [0], [3], [5], [6], [7], [1], [2], [0], [0], [6], [4]])"

text \<open>
  The scalar reference of the product, as the specification words it: start from the
  zero vector and, for each word index \<open>w\<close> of \<open>v\<close> and each set bit \<open>j\<close> of that
  word that is a column of \<open>v\<close> (that is, \<open>w * W + j\<close> is a row of \<open>A\<close>), XOR row
  \<open>w * W + j\<close> of \<open>A\<close> into \<open>c\<close>; at the end the last word of \<open>c\<close> is masked by
  the high bitmask. \<open>mrow A i\<close> are the words of row \<open>i\<close> of \<open>A\<close>.
\<close>

definition mrow :: "mzd_t \<Rightarrow> nat \<Rightarrow> mword list" where
  "mrow A i = arow A (rows A i) (nwords (ncols A))"

definition mul_v_ref :: "mzd_t \<Rightarrow> mword list \<Rightarrow> mword list" where
  "mul_v_ref A vw =
     (let n = nwords (ncols A);
          c = fold (\<lambda>w c. fold (\<lambda>j c. if bit (vw ! w) j \<and> w * m4ri_radix + j < nrows A
                                      then map (\<lambda>i. c ! i XOR mrow A (w * m4ri_radix + j) ! i) [0..<n]
                                      else c)
                             [0..<m4ri_radix] c)
                [0..<length vw] (replicate n 0)
      in map (\<lambda>i. c ! i AND lastmask (ncols A) i) [0..<n])"


section \<open>Reading and writing the store\<close>

lemma rows_0 [simp]: "rows A 0 = 0"
  by (simp add: rows_def)

lemma rd_wr:
  "rd (wr h p i x) q j =
     (if q = p \<and> j = i \<and> i < length (data (mem h p)) then x else rd h q j)"
  by (auto simp: rd_def wr_def list_update_beyond)

lemma wr_hdr [simp]:
  "width (mem (wr h p i x) q) = width (mem h q)"
  "nrows (mem (wr h p i x) q) = nrows (mem h q)"
  "ncols (mem (wr h p i x) q) = ncols (mem h q)"
  "rowstride (mem (wr h p i x) q) = rowstride (mem h q)"
  "flags (mem (wr h p i x) q) = flags (mem h q)"
  "high_bitmask (mem (wr h p i x) q) = high_bitmask (mem h q)"
  "length (data (mem (wr h p i x) q)) = length (data (mem h q))"
  "brk (wr h p i x) = brk h"
  by (auto simp: wr_def)

lemma wr_put: "wr h p i x = put_data h p ((data (mem h p))[i := x])"
  by (simp add: wr_def put_data_def)

lemma put_put [simp]: "put_data (put_data h p d) p d' = put_data h p d'"
  by (simp add: put_data_def)

lemma data_put [simp]: "data (mem (put_data h p d) q) = (if q = p then d else data (mem h q))"
  by (simp add: put_data_def)

lemma put_hdr [simp]:
  "width (mem (put_data h p d) q) = width (mem h q)"
  "nrows (mem (put_data h p d) q) = nrows (mem h q)"
  "ncols (mem (put_data h p d) q) = ncols (mem h q)"
  "rowstride (mem (put_data h p d) q) = rowstride (mem h q)"
  "flags (mem (put_data h p d) q) = flags (mem h q)"
  "high_bitmask (mem (put_data h p d) q) = high_bitmask (mem h q)"
  "brk (put_data h p d) = brk h"
  by (auto simp: put_data_def)

lemma rd_put: "rd (put_data h p d) q j = (if q = p then d ! j else rd h q j)"
  by (simp add: rd_def)

lemma put_data_same: "put_data h p (data (mem h p)) = h"
  by (simp add: put_data_def)

lemma mem_put_other: "q \<noteq> p \<Longrightarrow> mem (put_data h p d) q = mem h q"
  by (simp add: put_data_def)

lemma calculate_rowstride_ge: "wd \<le> calculate_rowstride wd"
  unfolding calculate_rowstride_def sizeof_word_def avx_bound_def by (simp; arith)

lemma nwords_pos: "0 < n \<Longrightarrow> 0 < nwords n"
  by (simp add: nwords_def m4ri_radix_def)

lemma vec_okD:
  assumes "vec_ok n h p"
  shows "width (mem h p) = nwords n" "high_bitmask (mem h p) = hmask n"
    "nwords n \<le> length (data (mem h p))" "0 < nwords n" "ncols (mem h p) = n"
    "nrows (mem h p) = 1" "length (vec h p) = nwords n"
    "flags (mem h p) AND mzd_flag_custom_layout \<noteq> 0"
  using assms calculate_rowstride_ge[of "nwords n"] nwords_pos[of n]
  by (auto simp: vec_ok_def mzd_wf_def vec_def)

lemma vec_put_row0:
  "length ws = width (mem h p) \<Longrightarrow> vec (put_row0 h p ws) q = (if q = p then ws else vec h q)"
  by (simp add: vec_def put_row0_def)

lemma mem_put_row0_other: "q \<noteq> p \<Longrightarrow> mem (put_row0 h p ws) q = mem h q"
  by (simp add: put_row0_def put_data_def)

lemma brk_put_row0 [simp]: "brk (put_row0 h p ws) = brk h"
  by (simp add: put_row0_def)

lemma vec_ok_put_row0:
  "length ws \<le> length (data (mem h p)) \<Longrightarrow> vec_ok m (put_row0 h p ws) q = vec_ok m h q"
  by (simp add: vec_ok_def mzd_wf_def put_row0_def)

lemma put_row0_vec: "put_row0 h p (vec h p) = h"
  by (simp add: put_row0_def vec_def put_data_def min_def)

lemma length_wxor [simp]: "length (wxor n xs ys) = nwords n"
  by (simp add: wxor_def)

lemma length_wand [simp]: "length (wand n xs ys) = nwords n"
  by (simp add: wand_def)

lemma upd_last_map:
  "0 < k \<Longrightarrow>
   (map f [0..<k])[k - Suc 0 := g (k - Suc 0)] = map (\<lambda>i. if Suc i = k then g i else f i) [0..<k]"
  by (auto intro!: nth_equalityI simp: nth_list_update)

section \<open>XOR and AND\<close>

lemma mzd_xor_loop_eq:
  "i + n \<le> length (data (mem h res)) \<Longrightarrow>
   mzd_xor_loop n i res first second h =
     put_data h res (take i (data (mem h res)) @
        map (\<lambda>j. rd h first j XOR rd h second j) [i..<i + n] @
        drop (i + n) (data (mem h res)))"
proof (induction n arbitrary: i h)
  case 0
  then show ?case by (simp add: put_data_def)
next
  case (Suc n)
  let ?x = "rd h first i XOR rd h second i"
  let ?h1 = "wr h res i ?x"
  have len: "Suc i + n \<le> length (data (mem ?h1 res))" using Suc.prems by simp
  have rdeq: "\<And>j q. Suc i \<le> j \<Longrightarrow> rd ?h1 q j = rd h q j" by (simp add: rd_wr)
  have m: "map (\<lambda>j. rd ?h1 first j XOR rd ?h1 second j) [Suc i..<Suc i + n]
         = map (\<lambda>j. rd h first j XOR rd h second j) [Suc i..<Suc i + n]"
    by (rule map_cong) (auto simp: rdeq)
  have t: "take (Suc i) (data (mem ?h1 res)) = take i (data (mem h res)) @ [?x]"
    using Suc.prems by (simp add: wr_def take_Suc_conv_app_nth)
  have d: "drop (Suc i + n) (data (mem ?h1 res)) = drop (Suc i + n) (data (mem h res))"
    by (simp add: wr_def)
  have u: "[i..<i + Suc n] = i # [Suc i..<Suc i + n]" by (simp add: upt_conv_Cons)
  show ?case
    by (simp only: mzd_xor_loop.simps rows_0 add_0 Suc.IH[OF len] m t d u)
       (simp add: wr_put)
qed

lemma mzd_xor_vec:
  assumes r: "vec_ok n h res" and a: "vec_ok n h first" and b: "vec_ok n h second"
  shows "mzd_xor (Some res) first second h =
           (res, put_row0 h res (wxor n (vec h first) (vec h second)))"
proof -
  let ?wd = "nwords n"
  let ?d = "data (mem h res)"
  let ?f = "\<lambda>j. rd h first j XOR rd h second j"
  note R = vec_okD[OF r] and A = vec_okD[OF a] and B = vec_okD[OF b]
  have loop: "mzd_xor_loop ?wd 0 res first second h =
                put_data h res (map ?f [0..<?wd] @ drop ?wd ?d)"
    using mzd_xor_loop_eq[of 0 ?wd h res first second] R(3) by simp
  have w: "wxor n (vec h first) (vec h second) = map (\<lambda>i. ?f i AND lastmask n i) [0..<?wd]"
    unfolding wxor_def by (rule map_cong) (simp_all add: vec_def rd_def A(1) B(1))
  have nth: "(map ?f [0..<?wd] @ drop ?wd ?d) ! (?wd - Suc 0) = ?f (?wd - Suc 0)"
    using R(4) by (simp add: nth_append)
  have upd: "(map ?f [0..<?wd] @ drop ?wd ?d)[?wd - Suc 0 := ?f (?wd - Suc 0) AND hmask n]
           = wxor n (vec h first) (vec h second) @ drop ?wd ?d"
    unfolding w using R(4)
    using upd_last_map[of ?wd ?f "\<lambda>i. ?f i AND hmask n"]
    by (simp add: list_update_append lastmask_def if_distrib[of "\<lambda>x. _ AND x"] cong: if_cong)
  show ?thesis
    using R(4)
    by (simp add: mzd_xor_def Let_def loop A(1,2) rd_put nth wr_put upd put_row0_def)
qed

lemma mzd_and_loop_eq:
  "i + n \<le> length (data (mem h res)) \<Longrightarrow>
   mzd_and_loop n i res first second h =
     put_data h res (take i (data (mem h res)) @
        map (\<lambda>j. rd h first j AND rd h second j) [i..<i + n] @
        drop (i + n) (data (mem h res)))"
proof (induction n arbitrary: i h)
  case 0
  then show ?case by (simp add: put_data_def)
next
  case (Suc n)
  let ?x = "rd h first i AND rd h second i"
  let ?h1 = "wr h res i ?x"
  have len: "Suc i + n \<le> length (data (mem ?h1 res))" using Suc.prems by simp
  have rdeq: "\<And>j q. Suc i \<le> j \<Longrightarrow> rd ?h1 q j = rd h q j" by (simp add: rd_wr)
  have m: "map (\<lambda>j. rd ?h1 first j AND rd ?h1 second j) [Suc i..<Suc i + n]
         = map (\<lambda>j. rd h first j AND rd h second j) [Suc i..<Suc i + n]"
    by (rule map_cong) (auto simp: rdeq)
  have t: "take (Suc i) (data (mem ?h1 res)) = take i (data (mem h res)) @ [?x]"
    using Suc.prems by (simp add: wr_def take_Suc_conv_app_nth)
  have d: "drop (Suc i + n) (data (mem ?h1 res)) = drop (Suc i + n) (data (mem h res))"
    by (simp add: wr_def)
  have u: "[i..<i + Suc n] = i # [Suc i..<Suc i + n]" by (simp add: upt_conv_Cons)
  show ?case
    by (simp only: mzd_and_loop.simps rows_0 add_0 Suc.IH[OF len] m t d u)
       (simp add: wr_put)
qed

lemma mzd_and_vec:
  assumes r: "vec_ok n h res" and a: "vec_ok n h first" and b: "vec_ok n h second"
  shows "mzd_and (Some res) first second h =
           (res, put_row0 h res (wand n (vec h first) (vec h second)))"
proof -
  let ?wd = "nwords n"
  let ?d = "data (mem h res)"
  let ?f = "\<lambda>j. rd h first j AND rd h second j"
  note R = vec_okD[OF r] and A = vec_okD[OF a] and B = vec_okD[OF b]
  have loop: "mzd_and_loop ?wd 0 res first second h =
                put_data h res (map ?f [0..<?wd] @ drop ?wd ?d)"
    using mzd_and_loop_eq[of 0 ?wd h res first second] R(3) by simp
  have w: "wand n (vec h first) (vec h second) = map (\<lambda>i. ?f i AND lastmask n i) [0..<?wd]"
    unfolding wand_def by (rule map_cong) (simp_all add: vec_def rd_def A(1) B(1))
  have nth: "(map ?f [0..<?wd] @ drop ?wd ?d) ! (?wd - Suc 0) = ?f (?wd - Suc 0)"
    using R(4) by (simp add: nth_append)
  have upd: "(map ?f [0..<?wd] @ drop ?wd ?d)[?wd - Suc 0 := ?f (?wd - Suc 0) AND hmask n]
           = wand n (vec h first) (vec h second) @ drop ?wd ?d"
    unfolding w using R(4)
    using upd_last_map[of ?wd ?f "\<lambda>i. ?f i AND hmask n"]
    by (simp add: list_update_append lastmask_def if_distrib[of "\<lambda>x. _ AND x"] cong: if_cong)
  show ?thesis
    using R(4)
    by (simp add: mzd_and_def Let_def loop A(1,2) rd_put nth wr_put upd put_row0_def)
qed

section \<open>Shifts\<close>

lemma length_wshr [simp]: "length (wshr n k xs) = nwords n" by (simp add: wshr_def)
lemma length_wshl [simp]: "length (wshl n k xs) = nwords n" by (simp add: wshl_def)

lemma fold_wr:
  "off + n \<le> length (data (mem h p)) \<Longrightarrow>
   fold (\<lambda>j h. wr h p (off + j) (f j)) [0..<n] h =
     put_data h p (take off (data (mem h p)) @ map f [0..<n] @ drop (off + n) (data (mem h p)))"
proof (induction n)
  case 0
  then show ?case by (simp add: put_data_def)
next
  case (Suc n)
  let ?d = "data (mem h p)"
  have "(take off ?d @ map f [0..<n] @ drop (off + n) ?d)[off + n := f n]
        = take off ?d @ map f [0..<Suc n] @ drop (off + Suc n) ?d"
  proof -
    have "off + n < length ?d" using Suc.prems by simp
    then have "drop (off + n) ?d = ?d ! (off + n) # drop (off + Suc n) ?d"
      by (simp add: Cons_nth_drop_Suc)
    then show ?thesis using Suc.prems by (simp add: list_update_append)
  qed
  with Suc show ?case by (simp add: wr_put)
qed

lemma mzd_shift_right_loop_eq:
  "i + n \<le> length (data (mem h res)) \<Longrightarrow>
   mzd_shift_right_loop n k lc res val i i h =
     (i + n, i + n,
      put_data h res (take i (data (mem h res)) @
        map (\<lambda>j. drop_bit k (rd h val j) OR push_bit lc (rd h val (Suc j))) [i..<i + n] @
        drop (i + n) (data (mem h res))))"
proof (induction n arbitrary: i h)
  case 0
  then show ?case by (simp add: put_data_def)
next
  case (Suc n)
  let ?x = "drop_bit k (rd h val i) OR push_bit lc (rd h val (Suc i))"
  let ?h1 = "wr h res i ?x"
  have len: "Suc i + n \<le> length (data (mem ?h1 res))" using Suc.prems by simp
  have rdeq: "\<And>j q. Suc i \<le> j \<Longrightarrow> rd ?h1 q j = rd h q j" by (simp add: rd_wr)
  have m: "map (\<lambda>j. drop_bit k (rd ?h1 val j) OR push_bit lc (rd ?h1 val (Suc j))) [Suc i..<Suc i + n]
         = map (\<lambda>j. drop_bit k (rd h val j) OR push_bit lc (rd h val (Suc j))) [Suc i..<Suc i + n]"
    by (rule map_cong) (auto simp: rdeq)
  have t: "take (Suc i) (data (mem ?h1 res)) = take i (data (mem h res)) @ [?x]"
    using Suc.prems by (simp add: wr_def take_Suc_conv_app_nth)
  have d: "drop (Suc i + n) (data (mem ?h1 res)) = drop (Suc i + n) (data (mem h res))"
    by (simp add: wr_def)
  have u: "[i..<i + Suc n] = i # [Suc i..<Suc i + n]" by (simp add: upt_conv_Cons)
  show ?case
    by (simp only: mzd_shift_right_loop.simps Let_def Suc.IH[OF len] m t d u)
       (simp add: wr_put)
qed

lemma mzd_shift_left_loop_eq:
  "n \<le> p \<Longrightarrow> p < length (data (mem h res)) \<Longrightarrow>
   mzd_shift_left_loop n k rc res val p p h =
     (p - n, p - n,
      put_data h res (take (Suc p - n) (data (mem h res)) @
        map (\<lambda>j. push_bit k (rd h val j) OR drop_bit rc (rd h val (j - 1))) [Suc p - n..<Suc p] @
        drop (Suc p) (data (mem h res))))"
proof (induction n arbitrary: p h)
  case 0
  then show ?case by (simp add: put_data_def)
next
  case (Suc n)
  let ?g = "\<lambda>h j. push_bit k (rd h val j) OR drop_bit rc (rd h val (j - 1))"
  let ?x = "?g h p"
  let ?h1 = "wr h res p ?x"
  let ?d = "data (mem h res)"
  from Suc.prems have p: "0 < p" "n \<le> p - 1" "p - 1 < length (data (mem ?h1 res))" by simp_all
  have rdeq: "\<And>j q x. j < p \<Longrightarrow> rd (wr h res p x) q j = rd h q j" by (simp add: rd_wr)
  have m: "map (?g ?h1) [Suc (p - 1) - n..<Suc (p - 1)] = map (?g h) [p - n..<p]"
    using p(1) by (intro map_cong) (auto simp: rdeq)
  have t: "take (Suc (p - 1) - n) (data (mem ?h1 res)) = take (p - n) ?d"
    using p(1) by (simp add: wr_def)
  have d: "drop (Suc (p - 1)) (data (mem ?h1 res)) = ?x # drop (Suc p) ?d"
    using p(1) Suc.prems(2) by (simp add: wr_def drop_update_cancel Cons_nth_drop_Suc[symmetric])
  have u: "[Suc p - Suc n..<Suc p] = [p - n..<p] @ [p]" using Suc.prems by simp
  have s: "Suc p - Suc n = p - n" "p - 1 - n = p - Suc n" by simp_all
  show ?case
    by (simp only: mzd_shift_left_loop.simps Let_def Suc.IH[OF p(2,3)] m t d u s)
       (simp add: wr_put)
qed


lemma vec_nth: "vec_ok n h p \<Longrightarrow> i < nwords n \<Longrightarrow> vec h p ! i = rd h p i"
  by (simp add: vec_def rd_def vec_okD(1))

lemma vec_eq_map_rd: "vec_ok n h p \<Longrightarrow> vec h p = map (rd h p) [0..<nwords n]"
  by (rule nth_equalityI) (simp_all add: vec_okD(7) vec_nth)

lemma drop_upd_head: "i < length d \<Longrightarrow> (drop i d)[0 := y] = y # drop (Suc i) d"
  by (simp add: Cons_nth_drop_Suc[symmetric, of i d])

lemma memcpy_eq:
  assumes "doff + n \<le> length (data (mem h d))"
  shows "memcpy d doff src soff n h =
     put_data h d (take doff (data (mem h d)) @ map (\<lambda>j. rd h src (soff + j)) [0..<n] @
                   drop (doff + n) (data (mem h d)))"
proof -
  let ?ws = "map (\<lambda>j. rd h src (soff + j)) [0..<n]"
  have "map ((!) ?ws) [0..<n] = ?ws"
    by (rule nth_equalityI) simp_all
  then show ?thesis
    using fold_wr[OF assms, of "(!) ?ws"] by (simp only: memcpy_def Let_def)
qed

lemma mzd_local_copy_vec:
  assumes r: "vec_ok n h res" and v: "vec_ok n h val"
  shows "mzd_local_copy (Some res) val h = Some (res, put_row0 h res (vec h val))"
proof (cases "res = val")
  case True
  then show ?thesis by (simp add: mzd_local_copy_def put_row0_vec)
next
  case False
  note R = vec_okD[OF r] and V = vec_okD[OF v]
  have "memcpy res 0 val 0 (nwords n) h = put_row0 h res (vec h val)"
    using memcpy_eq[of 0 "nwords n" h res val 0] R(3)
    by (simp add: put_row0_def vec_eq_map_rd[OF v])
  then show ?thesis
    using False R V by (simp add: mzd_local_copy_def)
qed

lemma wshr_0: "length xs = nwords n \<Longrightarrow> wshr n 0 xs = xs"
  by (auto simp: wshr_def m4ri_radix_def intro!: nth_equalityI)

lemma wshl_0: "length xs = nwords n \<Longrightarrow> wshl n 0 xs = xs"
  by (auto simp: wshl_def m4ri_radix_def intro!: nth_equalityI)

lemma mzd_shift_right_vec:
  assumes k: "k < 64" and r: "vec_ok n h res" and v: "vec_ok n h val"
  shows "mzd_shift_right res val k h = Some (put_row0 h res (wshr n k (vec h val)))"
proof (cases "k = 0")
  case True
  then show ?thesis
    using mzd_local_copy_vec[OF r v] by (simp add: mzd_shift_right_def wshr_0 vec_okD(7)[OF v])
next
  case False
  let ?wd = "nwords n"
  let ?d = "data (mem h res)"
  let ?g = "\<lambda>j. drop_bit k (rd h val j) OR push_bit (64 - k) (rd h val (Suc j))"
  let ?D1 = "map ?g [0..<?wd - Suc 0] @ drop (?wd - Suc 0) ?d"
  let ?y = "drop_bit k (rd h val (?wd - Suc 0))"
  note R = vec_okD[OF r] and V = vec_okD[OF v]
  have loop: "mzd_shift_right_loop (?wd - Suc 0) k (64 - k) res val 0 0 h =
                (?wd - Suc 0, ?wd - Suc 0, put_data h res ?D1)"
    using mzd_shift_right_loop_eq[of 0 "?wd - Suc 0" h res k "64 - k" val] R(3) by simp
  have last: "rd (put_data h res ?D1) val (?wd - Suc 0) = rd h val (?wd - Suc 0)"
    using R(3,4) by (simp add: rd_put nth_append rd_def)
  have w: "wshr n k (vec h val) = map ?g [0..<?wd - Suc 0] @ [?y]"
  proof (rule nth_equalityI)
    show "length (wshr n k (vec h val)) = length (map ?g [0..<?wd - Suc 0] @ [?y])"
      using R(4) by simp
    fix i assume "i < length (wshr n k (vec h val))"
    then have i: "i < ?wd" by simp
    show "wshr n k (vec h val) ! i = (map ?g [0..<?wd - Suc 0] @ [?y]) ! i"
    proof (cases "Suc i < ?wd")
      case True
      then have "i < ?wd - Suc 0" by simp
      then show ?thesis
        using i True by (simp add: wshr_def nth_append vec_nth[OF v] m4ri_radix_def)
    next
      case False
      with i have "i = ?wd - Suc 0" by simp
      then show ?thesis
        using i by (simp add: wshr_def nth_append vec_nth[OF v])
    qed
  qed
  have upd: "?D1[?wd - Suc 0 := ?y] = wshr n k (vec h val) @ drop ?wd ?d"
    using R(3,4) unfolding w
    by (simp add: list_update_append drop_upd_head)
  have fin: "wr (put_data h res ?D1) res (?wd - Suc 0) ?y = put_row0 h res (wshr n k (vec h val))"
    by (simp only: wr_put data_put refl if_True upd put_put put_row0_def length_wshr)
  show ?thesis
    using False k
    by (simp add: mzd_shift_right_def V(1) sizeof_word_def loop last fin)
qed


lemma mzd_shift_left_vec:
  assumes k: "k < 64" and r: "vec_ok n h res" and v: "vec_ok n h val"
  shows "mzd_shift_left res val k h = Some (put_row0 h res (wshl n k (vec h val)))"
proof (cases "k = 0")
  case True
  then show ?thesis
    using mzd_local_copy_vec[OF r v] by (simp add: mzd_shift_left_def wshl_0 vec_okD(7)[OF v])
next
  case False
  let ?wd = "nwords n"
  let ?d = "data (mem h res)"
  let ?g = "\<lambda>j. push_bit k (rd h val j) OR drop_bit (64 - k) (rd h val (j - Suc 0))"
  let ?D1 = "take (Suc 0) ?d @ map ?g [Suc 0..<?wd] @ drop ?wd ?d"
  let ?y = "push_bit k (rd h val 0)"
  note R = vec_okD[OF r] and V = vec_okD[OF v]
  have loop: "mzd_shift_left_loop (?wd - Suc 0) k (64 - k) res val (?wd - Suc 0) (?wd - Suc 0) h =
                (0, 0, put_data h res ?D1)"
    using mzd_shift_left_loop_eq[of "?wd - Suc 0" "?wd - Suc 0" h res k "64 - k" val] R(3,4)
    by simp
  have first: "rd (put_data h res ?D1) val 0 = rd h val 0"
    using R(3,4) by (simp add: rd_put nth_append rd_def)
  have w: "wshl n k (vec h val) = ?y # map ?g [Suc 0..<?wd]"
  proof (rule nth_equalityI)
    show "length (wshl n k (vec h val)) = length (?y # map ?g [Suc 0..<?wd])"
      using R(4) by simp
    fix i assume "i < length (wshl n k (vec h val))"
    then have i: "i < ?wd" by simp
    show "wshl n k (vec h val) ! i = (?y # map ?g [Suc 0..<?wd]) ! i"
    proof (cases i)
      case 0
      then show ?thesis using i by (simp add: wshl_def vec_nth[OF v])
    next
      case (Suc j)
      then have "[Suc 0..<?wd] ! j = Suc j" using i by simp
      then show ?thesis
        using i Suc by (simp add: wshl_def vec_nth[OF v] m4ri_radix_def)
    qed
  qed
  have upd: "?D1[0 := ?y] = wshl n k (vec h val) @ drop ?wd ?d"
    using R(3,4) unfolding w
    by (cases ?d) simp_all
  have fin: "wr (put_data h res ?D1) res 0 ?y = put_row0 h res (wshl n k (vec h val))"
    by (simp only: wr_put data_put refl if_True upd put_put put_row0_def length_wshl)
  show ?thesis
    using False k R(4)
    by (simp add: mzd_shift_left_def Let_def V(1) sizeof_word_def loop first fin)
qed

lemma w_mid:
  fixes w w' w0 :: mword
  assumes "0 < k" "k < 64"
  shows "push_bit k (drop_bit k w OR push_bit (64 - k) w') OR
         drop_bit (64 - k) (drop_bit k w0 OR push_bit (64 - k) w) = w"
proof (rule bit_word_eqI)
  fix i assume "i < LENGTH(64)"
  then show "bit (push_bit k (drop_bit k w OR push_bit (64 - k) w') OR
         drop_bit (64 - k) (drop_bit k w0 OR push_bit (64 - k) w)) i = bit w i"
    using assms by (cases "k \<le> i") (auto simp: bit_simps)
qed

lemma w_last:
  fixes w w0 :: mword
  assumes "0 < k" "k < 64"
  shows "push_bit k (drop_bit k w) OR
         drop_bit (64 - k) (drop_bit k w0 OR push_bit (64 - k) w) = w"
proof (rule bit_word_eqI)
  fix i assume "i < LENGTH(64)"
  then show "bit (push_bit k (drop_bit k w) OR
         drop_bit (64 - k) (drop_bit k w0 OR push_bit (64 - k) w)) i = bit w i"
    using assms by (cases "k \<le> i") (auto simp: bit_simps)
qed

lemma w_first:
  fixes w w' :: mword
  assumes "0 < k" "k < 64" "take_bit k w = 0"
  shows "push_bit k (drop_bit k w OR push_bit (64 - k) w') = w"
    and "push_bit k (drop_bit k w) = w"
proof -
  have z: "\<not> bit w i" if "i < k" for i
  proof -
    have "bit (take_bit k w) i = bit w i" using that by (simp add: bit_take_bit_iff)
    then show ?thesis using assms(3) by simp
  qed
  show "push_bit k (drop_bit k w OR push_bit (64 - k) w') = w"
  proof (rule bit_word_eqI)
    fix i assume "i < LENGTH(64)"
    then show "bit (push_bit k (drop_bit k w OR push_bit (64 - k) w')) i = bit w i"
      using assms(1,2) z[of i] by (cases "k \<le> i") (auto simp: bit_simps)
  qed
  show "push_bit k (drop_bit k w) = w"
  proof (rule bit_word_eqI)
    fix i assume "i < LENGTH(64)"
    then show "bit (push_bit k (drop_bit k w)) i = bit w i"
      using assms(1,2) z[of i] by (cases "k \<le> i") (auto simp: bit_simps)
  qed
qed

lemma wshl_wshr:
  assumes k: "0 < k" "k < 64" and len: "length xs = nwords n" "0 < nwords n"
    and low: "take_bit k (xs ! 0) = 0"
  shows "wshl n k (wshr n k xs) = xs"
proof (rule nth_equalityI)
  show "length (wshl n k (wshr n k xs)) = length xs" using len by simp
  fix i assume "i < length (wshl n k (wshr n k xs))"
  then have i: "i < nwords n" by simp
  show "wshl n k (wshr n k xs) ! i = xs ! i"
  proof (cases i)
    case 0
    then show ?thesis
      using i w_first[OF k low] by (simp add: wshl_def wshr_def m4ri_radix_def)
  next
    case (Suc j)
    then show ?thesis
      using i w_mid[OF k] w_last[OF k] by (simp add: wshl_def wshr_def m4ri_radix_def)
  qed
qed

section \<open>Evaluating examples\<close>

lemmas consts_simps =
  m4ri_radix_def m4ri_ffff_def M4RI_LEFT_BITMASK_def mzd_flag_nonzero_excess_def
  sizeof_word_def avx_bound_def mzd_flag_custom_layout_def calculate_rowstride_def
  nwords_def hmask_def lastmask_def

lemmas fixture_simps = mk_heap_def mk_mzd_def vec_def vec_ok_def mzd_wf_def consts_simps

section \<open>Adding a public constant to a share\<close>

lemma const_add_heap_ok:
  "vec_ok 64 const_add_heap 2" "vec_ok 64 const_add_heap 5" "vec_ok 64 const_add_heap 6"
  by (simp_all add: const_add_heap_def fixture_simps)

lemma const_add_heap_vec:
  "vec const_add_heap 2 = [0]" "vec const_add_heap 5 = [1]" "vec const_add_heap 6 = [2]"
  by (simp_all add: const_add_heap_def fixture_simps)

lemma wxor_1_2: "wxor 64 [1] [2] = [3]"
  by (simp add: wxor_def consts_simps)

text \<open>
  C9, as the code has it. \<^verbatim>\<open>mpc_const_add\<close> selects a slot by comparing its
  argument \<open>c\<close> with 0 and with the number of parties \<open>sc\<close>: for \<open>c = 0\<close> it
  stores \<open>first[0] XOR second\<close> in \<open>result[0]\<close>; for \<open>c = sc \<noteq> 0\<close> it stores
  \<open>first[sc - 1] XOR second\<close> in \<open>result[sc - 1]\<close>; for every other \<open>c\<close> it
  leaves the store as it is. A call changes no matrix but the selected result slot.
  With three parties the argument 3 selects slot 2, and the argument 2 selects nothing.
\<close>

theorem mpc_const_add_slot:
  assumes "c = 0 \<or> c = sc \<Longrightarrow>
             vec_ok n h (result ! (if c = 0 then 0 else sc - 1)) \<and>
             vec_ok n h (first ! (if c = 0 then 0 else sc - 1)) \<and> vec_ok n h second"
  shows "fst (mpc_const_add result first second sc c h) = result \<and>
         (if c = 0 \<or> c = sc
          then vec (snd (mpc_const_add result first second sc c h))
                   (result ! (if c = 0 then 0 else sc - 1))
                 = wxor n (vec h (first ! (if c = 0 then 0 else sc - 1))) (vec h second) \<and>
               (\<forall>p. p \<noteq> result ! (if c = 0 then 0 else sc - 1) \<longrightarrow>
                    mem (snd (mpc_const_add result first second sc c h)) p = mem h p)
          else snd (mpc_const_add result first second sc c h) = h)"
proof (cases "c = 0 \<or> c = sc")
  case True
  let ?k = "if c = 0 then 0 else sc - 1"
  from assms True
  have ok: "vec_ok n h (result ! ?k)" "vec_ok n h (first ! ?k)" "vec_ok n h second"
    by blast+
  have run: "mpc_const_add result first second sc c h =
               (result, put_row0 h (result ! ?k) (wxor n (vec h (first ! ?k)) (vec h second)))"
    using True mzd_xor_vec[OF ok] by (auto simp: mpc_const_add_def)
  show ?thesis
    using True vec_okD(1)[OF ok(1)]
    by (simp only: run fst_conv snd_conv if_True vec_put_row0 length_wxor)
       (simp add: mem_put_row0_other)
next
  case False
  then show ?thesis by (simp add: mpc_const_add_def)
qed

text \<open>
  The theorem at three parties and \<open>c = 3\<close>: the constant \<open>[2]\<close> is added to the
  share \<open>[1]\<close> of slot 2.
\<close>

theorem mpc_const_add_slot_witness:
  "vec_ok 64 const_add_heap 2 \<and> vec_ok 64 const_add_heap 5 \<and> vec_ok 64 const_add_heap 6 \<and>
   vec (snd (mpc_const_add [0, 1, 2] [3, 4, 5] 6 3 3 const_add_heap)) 2 = [3]"
proof -
  have "vec (snd (mpc_const_add [0, 1, 2] [3, 4, 5] 6 3 3 const_add_heap)) 2 =
          wxor 64 (vec const_add_heap 5) (vec const_add_heap 6)"
    using mpc_const_add_slot[of 3 3 64 const_add_heap "[0, 1, 2]" "[3, 4, 5]" 6]
      const_add_heap_ok
    by simp
  then show ?thesis
    using const_add_heap_ok by (simp add: const_add_heap_vec wxor_1_2)
qed

text \<open>
  C9 as the spec states it fails: with three parties and the slot argument 2, the claim
  has \<open>result[2]\<close> become \<open>first[2] XOR second = [3]\<close>, and the code leaves it
  at \<open>[0]\<close>.
\<close>

theorem mpc_const_add_slot_two_counterexample:
  "vec_ok 64 const_add_heap 2 \<and> vec_ok 64 const_add_heap 5 \<and> vec_ok 64 const_add_heap 6 \<and>
   vec (snd (mpc_const_add [0, 1, 2] [3, 4, 5] 6 SC_PROOF 2 const_add_heap)) 2 = [0] \<and>
   wxor 64 (vec const_add_heap 5) (vec const_add_heap 6) = [3]"
  using const_add_heap_ok
  by (simp add: mpc_const_add_def SC_PROOF_def const_add_heap_vec wxor_1_2)

section \<open>The claims on the shifts\<close>

lemma rd_put_row0: "i < length ws \<Longrightarrow> rd (put_row0 h p ws) p i = ws ! i"
  by (simp add: put_row0_def rd_put nth_append)

lemma shift_heap_ok: "vec_ok 128 shift_heap 0" "vec_ok 128 shift_heap 1"
  by (simp_all add: shift_heap_def fixture_simps)

lemma shift_heap_rd:
  "rd shift_heap (Suc 0) 0 = 0x8000000000000001" "rd shift_heap (Suc 0) (Suc 0) = 2"
  by (simp_all add: shift_heap_def rd_def fixture_simps)

text \<open>
  C6. For a shift count \<open>0 < k < W\<close>, \<^verbatim>\<open>mzd_shift_right\<close> stores
  \<open>(v[i] >> k) | (v[i+1] << (W - k))\<close> in every word \<open>i\<close> of the destination but the
  last, and \<open>v[last] >> k\<close> in the last. The destination may be the shifted vector
  itself. Nothing else changes.
\<close>

theorem mzd_shift_right_words:
  assumes "0 < k" "k < 64" "vec_ok n h res" "vec_ok n h val"
  shows "\<exists>h'. mzd_shift_right res val k h = Some h' \<and> vec_ok n h' res \<and>
           (\<forall>i. Suc i < nwords n \<longrightarrow>
                rd h' res i = drop_bit k (rd h val i) OR push_bit (64 - k) (rd h val (Suc i))) \<and>
           rd h' res (nwords n - 1) = drop_bit k (rd h val (nwords n - 1)) \<and>
           (\<forall>p. p \<noteq> res \<longrightarrow> mem h' p = mem h p)"
proof -
  let ?h' = "put_row0 h res (wshr n k (vec h val))"
  note R = vec_okD[OF assms(3)]
  have run: "mzd_shift_right res val k h = Some ?h'"
    using assms by (intro mzd_shift_right_vec)
  have ok: "vec_ok n ?h' res"
    using R(3) assms(3) by (simp add: vec_ok_put_row0)
  have mid: "rd ?h' res i = drop_bit k (rd h val i) OR push_bit (64 - k) (rd h val (Suc i))"
    if "Suc i < nwords n" for i
    using that by (simp add: rd_put_row0 wshr_def vec_nth[OF assms(4)] m4ri_radix_def)
  have last: "rd ?h' res (nwords n - 1) = drop_bit k (rd h val (nwords n - 1))"
    using R(4) by (simp add: rd_put_row0 wshr_def vec_nth[OF assms(4)])
  show ?thesis
    using run ok mid last by (auto simp: mem_put_row0_other)
qed

text \<open>
  The theorem on the vector \<open>[0x8000000000000001, 0x0000000000000002]\<close> of the
  spec's example, shifted by one position: bit 0 of the second word is zero, so bit 63
  of the first word of the result is zero.
\<close>

theorem mzd_shift_right_words_witness:
  "vec_ok 128 shift_heap 0 \<and> vec_ok 128 shift_heap 1 \<and>
   vec shift_heap 1 = [0x8000000000000001, 0x2] \<and>
   (\<exists>h'. mzd_shift_right 0 1 1 shift_heap = Some h' \<and>
         vec h' 0 = [0x4000000000000000, 0x1])"
proof -
  have nw: "nwords 128 = Suc (Suc 0)" by (simp add: consts_simps)
  obtain h' where h': "mzd_shift_right 0 1 1 shift_heap = Some h'" "vec_ok 128 h' 0"
    "\<forall>i. Suc i < nwords 128 \<longrightarrow>
        rd h' 0 i = drop_bit 1 (rd shift_heap 1 i) OR push_bit (64 - 1) (rd shift_heap 1 (Suc i))"
    "rd h' 0 (nwords 128 - 1) = drop_bit 1 (rd shift_heap 1 (nwords 128 - 1))"
    using mzd_shift_right_words[of 1 128 shift_heap 0 1] shift_heap_ok by auto
  have "push_bit 63 (2 :: mword) = 0"
    by (simp add: push_bit_eq_mult)
  with h'(3) have "rd h' 0 0 = 0x4000000000000000"
    by (simp add: nw shift_heap_rd)
  moreover from h'(4) have "rd h' 0 (Suc 0) = 1"
    by (simp add: nw shift_heap_rd)
  ultimately have "vec h' 0 = [0x4000000000000000, 0x1]"
    by (simp add: vec_eq_map_rd[OF h'(2)] nw)
  moreover have "vec shift_heap 1 = [0x8000000000000001, 0x2]"
    by (simp add: shift_heap_def fixture_simps)
  ultimately show ?thesis using h'(1) shift_heap_ok by blast
qed

text \<open>
  C6 as the spec states it fails in its example: the shift of
  \<open>[0x8000000000000001, 0x0000000000000002]\<close> to the right by one position is
  \<open>[0x4000000000000000, 0x0000000000000001]\<close>, not
  \<open>[0xc000000000000000, 0x0000000000000001]\<close>.
\<close>

theorem mzd_shift_right_example_counterexample:
  "vec_ok 128 shift_heap 0 \<and> vec_ok 128 shift_heap 1 \<and>
   vec shift_heap 1 = [0x8000000000000001, 0x2] \<and>
   map_option (\<lambda>h. vec h 0) (mzd_shift_right 0 1 1 shift_heap) = Some [0x4000000000000000, 0x1] \<and>
   map_option (\<lambda>h. vec h 0) (mzd_shift_right 0 1 1 shift_heap) \<noteq> Some [0xc000000000000000, 0x1]"
proof -
  have d: "vec_ok 128 shift_heap (Suc 0)"
    using shift_heap_ok(2) by simp
  have v: "vec shift_heap (Suc 0) = [0x8000000000000001, 0x2]"
    by (simp add: shift_heap_def fixture_simps)
  have p: "push_bit 63 (2 :: mword) = 0"
    by (simp add: push_bit_eq_mult)
  have w: "wshr 128 (Suc 0) [0x8000000000000001, 0x2] = [0x4000000000000000, 0x1]"
    by (simp add: wshr_def consts_simps p upt_rec)
  have run: "mzd_shift_right 0 (Suc 0) (Suc 0) shift_heap =
               Some (put_row0 shift_heap 0 (wshr 128 (Suc 0) (vec shift_heap (Suc 0))))"
    using shift_heap_ok(1) d by (intro mzd_shift_right_vec) simp_all
  have "vec (put_row0 shift_heap 0 (wshr 128 (Suc 0) (vec shift_heap (Suc 0)))) 0 =
          [0x4000000000000000, 0x1]"
    by (simp add: v w vec_put_row0 vec_okD(1)[OF shift_heap_ok(1)] nwords_def m4ri_radix_def)
  then show ?thesis
    using shift_heap_ok v by (simp add: run)
qed

lemma roundtrip_heap_ok:
  "vec_ok 64 roundtrip_heap 0" "vec_ok 64 roundtrip_heap 1" "vec_ok 64 roundtrip_heap 2"
  "vec_ok 64 roundtrip_heap 3"
  by (simp_all add: roundtrip_heap_def fixture_simps)

lemma roundtrip_heap_vec: "vec roundtrip_heap 0 = [1]" "vec roundtrip_heap 3 = [6]"
  by (simp_all add: roundtrip_heap_def fixture_simps)

text \<open>
  C8, as the code has it. A shift to the right by \<open>k\<close> drops the \<open>k\<close> lowest bits
  of the vector (columns \<open>0 \<dots> k - 1\<close>, the low bits of word 0) and a shift to the left
  brings zeros back in their place: for \<open>0 < k < W\<close> and a vector whose \<open>k\<close> lowest
  bits are zero, \<open>shift_left(shift_right(v, k), k) = v\<close>. The intermediate vector
  and the destination may be any vectors of the same shape, \<open>v\<close> itself included.
\<close>

theorem shift_right_left_roundtrip:
  assumes "0 < k" "k < 64" "vec_ok n h v" "vec_ok n h t" "vec_ok n h res"
    and "take_bit k (rd h v 0) = 0"
  shows "\<exists>h1 h2. mzd_shift_right t v k h = Some h1 \<and> mzd_shift_left res t k h1 = Some h2 \<and>
           vec h2 res = vec h v"
proof -
  let ?h1 = "put_row0 h t (wshr n k (vec h v))"
  let ?h2 = "put_row0 ?h1 res (wshl n k (vec ?h1 t))"
  note V = vec_okD[OF assms(3)] and T = vec_okD[OF assms(4)] and R = vec_okD[OF assms(5)]
  have r1: "mzd_shift_right t v k h = Some ?h1"
    using assms by (intro mzd_shift_right_vec) simp_all
  have ok1: "vec_ok n ?h1 t" "vec_ok n ?h1 res"
    using T(3) assms(4,5) by (simp_all add: vec_ok_put_row0)
  have r2: "mzd_shift_left res t k ?h1 = Some ?h2"
    using assms(2) ok1 by (intro mzd_shift_left_vec)
  have t1: "vec ?h1 t = wshr n k (vec h v)"
    by (simp add: vec_put_row0 T(1))
  have "vec ?h2 res = wshl n k (wshr n k (vec h v))"
    by (simp add: vec_put_row0 vec_okD(1)[OF ok1(2)] t1)
  also have "\<dots> = vec h v"
    using assms(1,2,6) V(4,7) by (intro wshl_wshr) (simp_all add: vec_nth[OF assms(3)])
  finally show ?thesis using r1 r2 by blast
qed

text \<open>
  The theorem on \<open>[6]\<close>, whose lowest bit is zero, shifted by one position and back.
\<close>

theorem shift_right_left_roundtrip_witness:
  "vec_ok 64 roundtrip_heap 3 \<and> vec_ok 64 roundtrip_heap 1 \<and> vec_ok 64 roundtrip_heap 2 \<and>
   take_bit 1 (rd roundtrip_heap 3 0) = 0 \<and>
   (\<exists>h1 h2. mzd_shift_right 1 3 1 roundtrip_heap = Some h1 \<and>
            mzd_shift_left 2 1 1 h1 = Some h2 \<and> vec h2 2 = [6])"
proof -
  have low: "take_bit 1 (rd roundtrip_heap 3 0) = 0"
    by (simp add: roundtrip_heap_def rd_def fixture_simps)
  show ?thesis
    using shift_right_left_roundtrip[of 1 64 roundtrip_heap 3 1 2] roundtrip_heap_ok low
    by (simp add: roundtrip_heap_vec)
qed

text \<open>
  C8 as the spec states it fails. The top bit of the vector \<open>[1]\<close> of 64 columns is
  zero; its shift to the right by one position is \<open>[0]\<close>, and so is the shift of that
  to the left.
\<close>

theorem shift_roundtrip_top_bits_counterexample:
  "vec_ok 64 roundtrip_heap 0 \<and> vec_ok 64 roundtrip_heap 1 \<and> vec_ok 64 roundtrip_heap 2 \<and>
   vec roundtrip_heap 0 = [1] \<and> drop_bit 63 (rd roundtrip_heap 0 0) = 0 \<and>
   map_option (\<lambda>h. vec h 2)
     (Option.bind (mzd_shift_right 1 0 1 roundtrip_heap) (mzd_shift_left 2 1 1)) = Some [0]"
proof -
  let ?h1 = "put_row0 roundtrip_heap (Suc 0) [0]"
  let ?h2 = "put_row0 ?h1 2 [0]"
  have t: "vec_ok 64 roundtrip_heap (Suc 0)"
    using roundtrip_heap_ok(2) by simp
  have w1: "wshr 64 (Suc 0) [1] = [0]"
    by (simp add: wshr_def consts_simps)
  have w2: "wshl 64 (Suc 0) [0] = [0]"
    by (simp add: wshl_def consts_simps)
  have r1: "mzd_shift_right (Suc 0) 0 (Suc 0) roundtrip_heap = Some ?h1"
    using mzd_shift_right_vec[OF _ t roundtrip_heap_ok(1), of "Suc 0"]
    by (simp add: roundtrip_heap_vec w1)
  have ok1: "vec_ok 64 ?h1 (Suc 0)" "vec_ok 64 ?h1 2"
    using roundtrip_heap_ok(3) t vec_okD(3,4)[OF t]
    by (simp_all add: vec_ok_put_row0)
  have t1: "vec ?h1 (Suc 0) = [0]"
    by (simp add: vec_put_row0 vec_okD(1)[OF t] nwords_def m4ri_radix_def)
  have r2: "mzd_shift_left 2 (Suc 0) (Suc 0) ?h1 = Some ?h2"
    using mzd_shift_left_vec[OF _ ok1(2,1), of "Suc 0"]
    by (simp add: t1 w2)
  have "vec ?h2 2 = [0]"
    by (simp add: vec_put_row0 vec_okD(1)[OF ok1(2)] nwords_def m4ri_radix_def)
  moreover have "drop_bit 63 (rd roundtrip_heap 0 0) = 0"
    by (simp add: roundtrip_heap_def rd_def fixture_simps)
  ultimately show ?thesis
    using roundtrip_heap_ok by (simp add: r1 r2 roundtrip_heap_vec)
qed

lemma pad_heap_ok: "vec_ok 30 pad_heap 0" "vec_ok 30 pad_heap 1"
  by (simp_all add: pad_heap_def fixture_simps)

text \<open>
  C7 on the code. \<^verbatim>\<open>mzd_shift_left\<close> writes the last word of its destination
  without the mask that \<^verbatim>\<open>mzd_xor\<close>, \<^verbatim>\<open>mzd_and\<close>, \<^verbatim>\<open>mzd_addmul_v\<close> and
  \<^verbatim>\<open>mzd_randomize_ssl\<close> apply. A vector of 30 columns with column 29 set satisfies
  the padding invariant; shifted to the left by one position, bit 30 of its only word is
  set, beyond the high bitmask \<open>0x3fffffff\<close>.
\<close>

theorem mzd_shift_left_sets_padding:
  "vec_ok 30 pad_heap 0 \<and> vec_ok 30 pad_heap 1 \<and>
   padding_ok (mem pad_heap 0) \<and> padding_ok (mem pad_heap 1) \<and>
   vec pad_heap 0 = [0x20000000] \<and>
   (case mzd_shift_left 1 0 1 pad_heap of
      None \<Rightarrow> False
    | Some h' \<Rightarrow> vec h' 1 = [0x40000000] \<and> high_bitmask (mem h' 1) = 0x3fffffff \<and>
                 \<not> padding_ok (mem h' 1))"
proof -
  let ?h' = "put_row0 pad_heap (Suc 0) (wshl 30 (Suc 0) (vec pad_heap 0))"
  have d: "vec_ok 30 pad_heap (Suc 0)"
    using pad_heap_ok(2) by simp
  note D = vec_okD[OF d]
  have run: "mzd_shift_left (Suc 0) 0 (Suc 0) pad_heap = Some ?h'"
    using pad_heap_ok(1) d by (intro mzd_shift_left_vec) simp_all
  have v0: "vec pad_heap 0 = [0x20000000]"
    by (simp add: pad_heap_def fixture_simps)
  have w: "wshl 30 (Suc 0) [0x20000000] = [0x40000000]"
    by (simp add: wshl_def consts_simps)
  have hm30: "hmask 30 = 0x3fffffff"
    by (simp add: consts_simps mask_eq_exp_minus_1)
  have pads: "padding_ok (mem pad_heap 0)" "padding_ok (mem pad_heap (Suc 0))"
    by (simp_all add: padding_ok_def pad_heap_def mk_heap_def mk_mzd_def hm30)
       (simp_all add: consts_simps)
  have res: "vec ?h' (Suc 0) = [0x40000000]"
    by (simp add: vec_put_row0 D(1) v0 w nwords_def m4ri_radix_def)
  have hm: "high_bitmask (mem ?h' (Suc 0)) = 0x3fffffff"
    by (simp add: put_row0_def D(2) hm30)
  have "data (mem ?h' (Suc 0)) ! 0 = 0x40000000"
    by (simp add: put_row0_def v0 w)
  then have bad: "\<not> padding_ok (mem ?h' (Suc 0))"
    using D(1,4,6) by (simp add: padding_ok_def D(2) hm30 put_row0_def nwords_def m4ri_radix_def)
  show ?thesis
    using pad_heap_ok pads v0 res hm bad by (simp add: run)
qed

section \<open>Vector by matrix: what the loops compute\<close>





lemma mem_put_row0_hdr [simp]:
  "width (mem (put_row0 h p ws) q) = width (mem h q)"
  "nrows (mem (put_row0 h p ws) q) = nrows (mem h q)"
  "ncols (mem (put_row0 h p ws) q) = ncols (mem h q)"
  "rowstride (mem (put_row0 h p ws) q) = rowstride (mem h q)"
  "high_bitmask (mem (put_row0 h p ws) q) = high_bitmask (mem h q)"
  "flags (mem (put_row0 h p ws) q) = flags (mem h q)"
  by (simp_all add: put_row0_def)








lemma drop_bit_64 [simp]: "drop_bit 64 (x :: mword) = 0"
  by (rule bit_word_eqI) (simp add: bit_simps)



lemma mzd_row_clear_offset_vec:
  assumes c: "vec_ok n h c"
  shows "mzd_row_clear_offset c 0 0 h = put_row0 h c (replicate (nwords n) 0)"
proof -
  let ?wd = "nwords n"
  let ?d = "data (mem h c)"
  let ?h0 = "wr h c 0 0"
  note C = vec_okD[OF c]
  have len0: "Suc 0 + (?wd - Suc 0) \<le> length (data (mem ?h0 c))" using C(3,4) by simp
  have u: "[Suc 0..<?wd] = map Suc [0..<?wd - Suc 0]"
    using C(4) by (simp add: map_Suc_upt)
  have "fold (\<lambda>i h. wr h c (rows (mem h c) 0 + i) 0) [Suc 0..<?wd] ?h0 =
        fold (\<lambda>j h. wr h c (Suc 0 + j) 0) [0..<?wd - Suc 0] ?h0"
    by (simp only: u fold_map comp_def rows_0 add_0 plus_1_eq_Suc add_Suc)
  also have "\<dots> = put_data ?h0 c (take (Suc 0) (data (mem ?h0 c)) @ map (\<lambda>j. 0) [0..<?wd - Suc 0] @
                       drop (Suc 0 + (?wd - Suc 0)) (data (mem ?h0 c)))"
    by (rule fold_wr[OF len0])
  also have "\<dots> = put_row0 h c (replicate ?wd 0)"
  proof -
    have t: "take (Suc 0) (data (mem ?h0 c)) = [0]"
      using C(3,4) by (cases ?d) (simp_all add: wr_def)
    have d: "drop (Suc 0 + (?wd - Suc 0)) (data (mem ?h0 c)) = drop ?wd ?d"
      using C(4) by (simp add: wr_def)
    have R: "replicate ?wd (0 :: mword) = 0 # map (\<lambda>j. 0) [0..<?wd - Suc 0]"
      using C(4) by (cases ?wd) (simp_all add: map_replicate_const)
    show ?thesis
      unfolding put_row0_def R t d using C(4) by (simp add: wr_put)
  qed
  finally show ?thesis
    by (simp add: mzd_row_clear_offset_def m4ri_radix_def C(1))
qed

section \<open>The product with a destination of the wrong shape\<close>

lemma mzd_mul_v_Some:
  assumes c: "vec_ok n h c" and nr: "nrows (mem h At) = ncols (mem h v)"
  shows "mzd_mul_v (Some c) v At h =
           mzd_addmul_v c v At (put_row0 h c (replicate (nwords n) 0))"
  using nr by (simp add: mzd_mul_v_def mzd_row_clear_offset_vec[OF c])

text \<open>
  C10. With a destination \<open>c\<close>, \<^verbatim>\<open>mzd_mul_v\<close> checks the rows of \<open>At\<close>
  against the columns of \<open>v\<close>, clears \<open>c\<close>, and only then lets
  \<^verbatim>\<open>mzd_addmul_v\<close> check the columns of \<open>At\<close> against those of \<open>c\<close>. When
  the rows match and the columns do not, the call returns \<^verbatim>\<open>NULL\<close> and the
  words of \<open>c\<close> are zero; no other matrix changes. When the rows do not match, the
  call returns \<^verbatim>\<open>NULL\<close> and the store is as before.
\<close>

theorem mzd_mul_v_mismatch_clears:
  assumes "vec_ok n h c"
  shows "(nrows (mem h At) = ncols (mem h v) \<and> ncols (mem h At) \<noteq> n \<longrightarrow>
            fst (mzd_mul_v (Some c) v At h) = None \<and>
            vec (snd (mzd_mul_v (Some c) v At h)) c = replicate (nwords n) 0 \<and>
            (\<forall>p. p \<noteq> c \<longrightarrow> mem (snd (mzd_mul_v (Some c) v At h)) p = mem h p)) \<and>
         (nrows (mem h At) \<noteq> ncols (mem h v) \<longrightarrow> mzd_mul_v (Some c) v At h = (None, h))"
proof (intro conjI impI)
  assume "nrows (mem h At) \<noteq> ncols (mem h v)"
  then show "mzd_mul_v (Some c) v At h = (None, h)"
    by (simp add: mzd_mul_v_def)
next
  assume a: "nrows (mem h At) = ncols (mem h v) \<and> ncols (mem h At) \<noteq> n"
  note C = vec_okD[OF assms]
  let ?h1 = "put_row0 h c (replicate (nwords n) 0)"
  have run: "mzd_mul_v (Some c) v At h = (None, ?h1)"
    using a C(5) by (simp add: mzd_mul_v_Some[OF assms] mzd_addmul_v_def)
  show "fst (mzd_mul_v (Some c) v At h) = None"
    by (simp add: run)
  show "vec (snd (mzd_mul_v (Some c) v At h)) c = replicate (nwords n) 0"
    by (simp add: run vec_put_row0 C(1))
  show "\<forall>p. p \<noteq> c \<longrightarrow> mem (snd (mzd_mul_v (Some c) v At h)) p = mem h p"
    by (simp add: run mem_put_row0_other)
qed

lemma clear_heap_ok: "vec_ok 64 clear_heap 0"
  by (simp add: clear_heap_def fixture_simps)

lemma clear_heap_dims:
  "nrows (mem clear_heap 2) = 64" "ncols (mem clear_heap 2) = 128"
  "ncols (mem clear_heap (Suc 0)) = 64" "vec clear_heap 0 = [5]"
  by (simp_all add: clear_heap_def fixture_simps)

text \<open>
  The theorem on a destination of 64 columns holding \<open>[5]\<close>, a vector of 64 columns
  and a matrix of 64 rows and 128 columns.
\<close>

theorem mzd_mul_v_mismatch_clears_witness:
  "vec_ok 64 clear_heap 0 \<and> vec clear_heap 0 = [5] \<and>
   nrows (mem clear_heap 2) = ncols (mem clear_heap 1) \<and> ncols (mem clear_heap 2) \<noteq> 64 \<and>
   fst (mzd_mul_v (Some 0) 1 2 clear_heap) = None \<and>
   vec (snd (mzd_mul_v (Some 0) 1 2 clear_heap)) 0 = [0]"
  using mzd_mul_v_mismatch_clears[OF clear_heap_ok, of 2 1]
  by (simp add: clear_heap_dims clear_heap_ok nwords_def m4ri_radix_def)

section \<open>The AND gate of the prover: what it computes\<close>

lemma length_party_words [simp]: "length (party_words n am aj bm bj rm rj) = nwords n"
  by (simp add: party_words_def)

lemma len_data_put_row0:
  "length ws \<le> length (data (mem h p)) \<Longrightarrow>
   length (data (mem (put_row0 h p ws) q)) = length (data (mem h q))"
  by (simp add: put_row0_def)

lemma upd_only_refl: "upd_only P h h"
  by (simp add: upd_only_def)

lemma upd_only_trans:
  "upd_only P h h1 \<Longrightarrow> upd_only Q h1 h2 \<Longrightarrow> upd_only (P \<union> Q) h h2"
  by (simp add: upd_only_def)

lemma upd_only_mono: "upd_only P h h' \<Longrightarrow> P \<subseteq> Q \<Longrightarrow> upd_only Q h h'"
  by (auto simp: upd_only_def)

lemma upd_only_put_row0:
  "length ws \<le> length (data (mem h p)) \<Longrightarrow> upd_only {p} h (put_row0 h p ws)"
  by (simp add: upd_only_def vec_ok_put_row0 mem_put_row0_other)

lemma upd_only_vec: "upd_only P h h' \<Longrightarrow> q \<notin> P \<Longrightarrow> vec h' q = vec h q"
  by (simp add: upd_only_def vec_def)

lemma upd_only_ok: "upd_only P h h' \<Longrightarrow> vec_ok m h' q = vec_ok m h q"
  by (simp add: upd_only_def)

lemma mzd_xor_effect:
  assumes "vec_ok n h res" "vec_ok n h a" "vec_ok n h b"
  shows "upd_only {res} h (snd (mzd_xor (Some res) a b h))"
    and "vec (snd (mzd_xor (Some res) a b h)) res = wxor n (vec h a) (vec h b)"
  using assms vec_okD(1,3)[OF assms(1)]
  by (simp_all add: mzd_xor_vec[OF assms] upd_only_put_row0 vec_put_row0)

lemma mzd_and_effect:
  assumes "vec_ok n h res" "vec_ok n h a" "vec_ok n h b"
  shows "upd_only {res} h (snd (mzd_and (Some res) a b h))"
    and "vec (snd (mzd_and (Some res) a b h)) res = wand n (vec h a) (vec h b)"
  using assms vec_okD(1,3)[OF assms(1)]
  by (simp_all add: mzd_and_vec[OF assms] upd_only_put_row0 vec_put_row0)

lemma mask_xor_absorb:
  "((x AND m) XOR y) AND m = (x XOR y) AND (m :: mword)"
  "(x XOR (y AND m)) AND m = (x XOR y) AND m"
  "((x AND m) AND m) = x AND m"
  by (simp_all add: bit_eq_iff bit_simps) blast+

lemma party_words_eq:
  shows "wxor n (wxor n (wxor n (wxor n (wand n am bm) (wand n aj bm)) (wand n am bj)) rm) rj
         = party_words n am aj bm bj rm rj"
  by (rule nth_equalityI)
     (simp_all add: wxor_def wand_def party_words_def mask_xor_absorb xor.assoc)

lemma mpc_and_party_effect:
  assumes ok: "vec_ok n h (res ! m)" "vec_ok n h b" "vec_ok n h (first ! m)" "vec_ok n h (first ! j)"
      "vec_ok n h (second ! m)" "vec_ok n h (second ! j)" "vec_ok n h (r ! m)" "vec_ok n h (r ! j)"
    and ne: "res ! m \<noteq> b"
      "res ! m \<notin> {first ! m, first ! j, second ! m, second ! j, r ! m, r ! j}"
      "b \<notin> {first ! m, first ! j, second ! m, second ! j, r ! m, r ! j}"
  shows "upd_only {res ! m, b} h (mpc_and_party m j res first second r b h)"
    and "vec (mpc_and_party m j res first second r b h) (res ! m) =
           party_words n (vec h (first ! m)) (vec h (first ! j)) (vec h (second ! m))
             (vec h (second ! j)) (vec h (r ! m)) (vec h (r ! j))"
proof -
  let ?rp = "res ! m"
  let ?am = "vec h (first ! m)" and ?aj = "vec h (first ! j)"
  let ?bm = "vec h (second ! m)" and ?bj = "vec h (second ! j)"
  let ?rm = "vec h (r ! m)" and ?rj = "vec h (r ! j)"
  note R = vec_okD[OF ok(1)] and B = vec_okD[OF ok(2)]
  let ?h1 = "put_row0 h ?rp (wand n ?am ?bm)"
  let ?h2 = "put_row0 ?h1 b (wand n ?aj ?bm)"
  let ?h3 = "put_row0 ?h2 ?rp (wxor n (wand n ?am ?bm) (wand n ?aj ?bm))"
  let ?h4 = "put_row0 ?h3 b (wand n ?am ?bj)"
  let ?h5 = "put_row0 ?h4 ?rp (wxor n (wxor n (wand n ?am ?bm) (wand n ?aj ?bm)) (wand n ?am ?bj))"
  let ?h6 = "put_row0 ?h5 ?rp
               (wxor n (wxor n (wxor n (wand n ?am ?bm) (wand n ?aj ?bm)) (wand n ?am ?bj)) ?rm)"
  let ?h7 = "put_row0 ?h6 ?rp (party_words n ?am ?aj ?bm ?bj ?rm ?rj)"
  have nes: "?rp \<noteq> b" "b \<noteq> ?rp"
    "first ! m \<noteq> ?rp" "first ! j \<noteq> ?rp" "second ! m \<noteq> ?rp" "second ! j \<noteq> ?rp"
    "r ! m \<noteq> ?rp" "r ! j \<noteq> ?rp"
    "first ! m \<noteq> b" "first ! j \<noteq> b" "second ! m \<noteq> b" "second ! j \<noteq> b"
    "r ! m \<noteq> b" "r ! j \<noteq> b"
    using ne by auto
  note facts = vec_ok_put_row0 vec_put_row0 len_data_put_row0 R(1,3) B(1,3) ok nes
  have s1: "snd (mzd_and (Some ?rp) (first ! m) (second ! m) h) = ?h1"
    using ok by (simp add: mzd_and_vec[where n = n])
  have s2: "snd (mzd_and (Some b) (first ! j) (second ! m) ?h1) = ?h2"
    by (simp add: mzd_and_vec[where n = n] facts)
  have s3: "snd (mzd_xor (Some ?rp) ?rp b ?h2) = ?h3"
    by (simp add: mzd_xor_vec[where n = n] facts)
  have s4: "snd (mzd_and (Some b) (first ! m) (second ! j) ?h3) = ?h4"
    by (simp add: mzd_and_vec[where n = n] facts)
  have s5: "snd (mzd_xor (Some ?rp) ?rp b ?h4) = ?h5"
    by (simp add: mzd_xor_vec[where n = n] facts)
  have s6: "snd (mzd_xor (Some ?rp) ?rp (r ! m) ?h5) = ?h6"
    by (simp add: mzd_xor_vec[where n = n] facts)
  have s7: "snd (mzd_xor (Some ?rp) ?rp (r ! j) ?h6) = ?h7"
    by (simp add: mzd_xor_vec[where n = n] facts party_words_eq)
  have run: "mpc_and_party m j res first second r b h = ?h7"
    by (simp only: mpc_and_party_def Let_def s1 s2 s3 s4 s5 s6 s7)
  show "upd_only {res ! m, b} h (mpc_and_party m j res first second r b h)"
    unfolding run
    by (simp add: upd_only_def mem_put_row0_other facts)
  show "vec (mpc_and_party m j res first second r b h) (res ! m) =
           party_words n ?am ?aj ?bm ?bj ?rm ?rj"
    unfolding run by (simp add: facts)
qed

lemma mpc_shift_right_effect:
  assumes k: "k < 64"
    and ok: "\<forall>i< sc. vec_ok n h (res ! i) \<and> vec_ok n h (val ! i)"
    and ne: "\<forall>i< sc. \<forall>j< sc. res ! i \<noteq> val ! j"
    and di: "\<forall>i< sc. \<forall>j< sc. i \<noteq> j \<longrightarrow> res ! i \<noteq> res ! j"
  shows "\<exists>h'. mpc_shift_right res val k sc h = Some h' \<and>
              upd_only ((!) res ` {..<sc}) h h' \<and>
              (\<forall>i< sc. vec h' (res ! i) = wshr n k (vec h (val ! i)))"
  using ok ne di
proof (induction sc)
  case 0
  then show ?case by (simp add: mpc_shift_right_def upd_only_refl)
next
  case (Suc sc)
  from Suc.prems have pre: "\<forall>i< sc. vec_ok n h (res ! i) \<and> vec_ok n h (val ! i)"
    "\<forall>i< sc. \<forall>j< sc. res ! i \<noteq> val ! j" "\<forall>i< sc. \<forall>j< sc. i \<noteq> j \<longrightarrow> res ! i \<noteq> res ! j"
    by simp_all
  from Suc.IH[OF pre] obtain h1 where h1: "mpc_shift_right res val k sc h = Some h1"
    "upd_only ((!) res ` {..<sc}) h h1" "\<forall>i< sc. vec h1 (res ! i) = wshr n k (vec h (val ! i))"
    by blast
  let ?p = "res ! sc"
  let ?h' = "put_row0 h1 ?p (wshr n k (vec h1 (val ! sc)))"
  have okp: "vec_ok n h1 ?p" "vec_ok n h1 (val ! sc)"
    using Suc.prems(1) by (simp_all add: upd_only_ok[OF h1(2)])
  have vnot: "val ! sc \<notin> (!) res ` {..<sc}"
  proof
    assume "val ! sc \<in> (!) res ` {..<sc}"
    then obtain i where "i < sc" "val ! sc = res ! i" by auto
    moreover from this(1) have "res ! i \<noteq> val ! sc" using Suc.prems(2) by simp
    ultimately show False by simp
  qed
  have pnot: "?p \<notin> (!) res ` {..<sc}"
  proof
    assume "?p \<in> (!) res ` {..<sc}"
    then obtain i where "i < sc" "?p = res ! i" by auto
    moreover from this(1) have "res ! i \<noteq> ?p" using Suc.prems(3) by simp
    ultimately show False by simp
  qed
  have v: "vec h1 (val ! sc) = vec h (val ! sc)"
    by (rule upd_only_vec[OF h1(2) vnot])
  have run: "mpc_shift_right res val k (Suc sc) h = Some ?h'"
    using h1(1) mzd_shift_right_vec[OF k okp]
    by (simp add: mpc_shift_right_def)
  have u1: "upd_only {?p} h1 ?h'"
    using vec_okD(3)[OF okp(1)] by (intro upd_only_put_row0) simp
  have u: "upd_only ((!) res ` {..<Suc sc}) h ?h'"
    using upd_only_trans[OF h1(2) u1] by (simp add: lessThan_Suc Un_commute)
  have vals: "vec ?h' (res ! i) = wshr n k (vec h (val ! i))" if "i < Suc sc" for i
  proof (cases "i = sc")
    case True
    then show ?thesis by (simp add: vec_put_row0 vec_okD(1)[OF okp(1)] v)
  next
    case False
    with that have i: "i < sc" by simp
    then have "res ! i \<noteq> ?p" using Suc.prems(3) by auto
    then show ?thesis using h1(3) i by (simp add: vec_put_row0 vec_okD(1)[OF okp(1)])
  qed
  show ?case using run u vals by blast
qed

lemma mpc_xor_inplace_effect:
  assumes ok: "\<forall>i< sc. vec_ok n h (rs ! i) \<and> vec_ok n h (bs ! i)"
    and ne: "\<forall>i< sc. \<forall>j< sc. rs ! i \<noteq> bs ! j"
    and di: "\<forall>i< sc. \<forall>j< sc. i \<noteq> j \<longrightarrow> rs ! i \<noteq> rs ! j"
  shows "upd_only ((!) rs ` {..<sc}) h (mpc_xor rs rs bs sc h) \<and>
         (\<forall>i< sc. vec (mpc_xor rs rs bs sc h) (rs ! i) = wxor n (vec h (rs ! i)) (vec h (bs ! i)))"
  using ok ne di
proof (induction sc)
  case 0
  then show ?case by (simp add: mpc_xor_def upd_only_refl)
next
  case (Suc sc)
  from Suc.prems have pre: "\<forall>i< sc. vec_ok n h (rs ! i) \<and> vec_ok n h (bs ! i)"
    "\<forall>i< sc. \<forall>j< sc. rs ! i \<noteq> bs ! j" "\<forall>i< sc. \<forall>j< sc. i \<noteq> j \<longrightarrow> rs ! i \<noteq> rs ! j"
    by simp_all
  let ?h1 = "mpc_xor rs rs bs sc h"
  from Suc.IH[OF pre] have h1: "upd_only ((!) rs ` {..<sc}) h ?h1"
    "\<forall>i< sc. vec ?h1 (rs ! i) = wxor n (vec h (rs ! i)) (vec h (bs ! i))"
    by blast+
  let ?p = "rs ! sc"
  let ?h' = "put_row0 ?h1 ?p (wxor n (vec ?h1 ?p) (vec ?h1 (bs ! sc)))"
  have okp: "vec_ok n ?h1 ?p" "vec_ok n ?h1 (bs ! sc)"
    using Suc.prems(1) by (simp_all add: upd_only_ok[OF h1(1)])
  have bnot: "bs ! sc \<notin> (!) rs ` {..<sc}"
  proof
    assume "bs ! sc \<in> (!) rs ` {..<sc}"
    then obtain i where "i < sc" "bs ! sc = rs ! i" by auto
    moreover from this(1) have "rs ! i \<noteq> bs ! sc" using Suc.prems(2) by simp
    ultimately show False by simp
  qed
  have pnot: "?p \<notin> (!) rs ` {..<sc}"
  proof
    assume "?p \<in> (!) rs ` {..<sc}"
    then obtain i where "i < sc" "?p = rs ! i" by auto
    moreover from this(1) have "rs ! i \<noteq> ?p" using Suc.prems(3) by simp
    ultimately show False by simp
  qed
  have v: "vec ?h1 (bs ! sc) = vec h (bs ! sc)" "vec ?h1 ?p = vec h ?p"
    by (rule upd_only_vec[OF h1(1) bnot], rule upd_only_vec[OF h1(1) pnot])
  have run: "mpc_xor rs rs bs (Suc sc) h = ?h'"
    using mzd_xor_vec[OF okp(1) okp(1) okp(2)]
    by (simp add: mpc_xor_def)
  have u1: "upd_only {?p} ?h1 ?h'"
    using vec_okD(3)[OF okp(1)] by (intro upd_only_put_row0) simp
  have u: "upd_only ((!) rs ` {..<Suc sc}) h ?h'"
    using upd_only_trans[OF h1(1) u1] by (simp add: lessThan_Suc Un_commute)
  have vals: "vec ?h' (rs ! i) = wxor n (vec h (rs ! i)) (vec h (bs ! i))" if "i < Suc sc" for i
  proof (cases "i = sc")
    case True
    then show ?thesis by (simp add: vec_put_row0 vec_okD(1)[OF okp(1)] v)
  next
    case False
    with that have i: "i < sc" by simp
    then have "rs ! i \<noteq> ?p" using Suc.prems(3) by auto
    then show ?thesis using h1(2) i by (simp add: vec_put_row0 vec_okD(1)[OF okp(1)])
  qed
  show ?case unfolding run using u vals by blast
qed

lemma party_loop_effect:
  assumes "distinct (map ((!) res) ms)" and "b \<notin> (!) res ` set ms"
    and "\<forall>m\<in>set ms. \<forall>p\<in>{first ! m, first ! jf m, second ! m, second ! jf m, r ! m, r ! jf m}.
           vec_ok n h p \<and> p \<noteq> b \<and> p \<notin> (!) res ` set ms"
    and "\<forall>m\<in>set ms. vec_ok n h (res ! m)" and "vec_ok n h b"
  shows "upd_only ((!) res ` set ms \<union> {b}) h
           (fold (\<lambda>m h. mpc_and_party m (jf m) res first second r b h) ms h) \<and>
         (\<forall>m\<in>set ms. vec (fold (\<lambda>m h. mpc_and_party m (jf m) res first second r b h) ms h) (res ! m)
                       = party_vec n h first second r m (jf m))"
  using assms(1-4)
proof (induction ms rule: rev_induct)
  case Nil
  then show ?case by (simp add: upd_only_refl)
next
  case (snoc m ms)
  let ?f = "\<lambda>m h. mpc_and_party m (jf m) res first second r b h"
  let ?h1 = "fold ?f ms h"
  let ?h' = "?f m ?h1"
  let ?I = "{first ! m, first ! jf m, second ! m, second ! jf m, r ! m, r ! jf m}"
  have pre: "distinct (map ((!) res) ms)" "b \<notin> (!) res ` set ms"
    "\<forall>m\<in>set ms. \<forall>p\<in>{first ! m, first ! jf m, second ! m, second ! jf m, r ! m, r ! jf m}.
           vec_ok n h p \<and> p \<noteq> b \<and> p \<notin> (!) res ` set ms"
    "\<forall>m\<in>set ms. vec_ok n h (res ! m)"
    using snoc.prems by auto
  from snoc.IH[OF pre] have h1: "upd_only ((!) res ` set ms \<union> {b}) h ?h1"
    "\<forall>m\<in>set ms. vec ?h1 (res ! m) = party_vec n h first second r m (jf m)"
    by blast+
  have rm: "res ! m \<noteq> b" "res ! m \<notin> (!) res ` set ms"
    using snoc.prems(1,2) by auto
  have I: "\<forall>p\<in>?I. vec_ok n h p \<and> p \<noteq> b \<and> p \<noteq> res ! m \<and> p \<notin> (!) res ` set ms"
    using snoc.prems(3) by auto
  have okh1: "vec_ok n ?h1 (res ! m)" "vec_ok n ?h1 b" "\<forall>p\<in>?I. vec_ok n ?h1 p"
    using snoc.prems(4) assms(5) I by (simp_all add: upd_only_ok[OF h1(1)])
  have vI: "\<forall>p\<in>?I. vec ?h1 p = vec h p"
    using I by (auto intro!: upd_only_vec[OF h1(1)])
  have eff: "upd_only {res ! m, b} ?h1 ?h'"
    "vec ?h' (res ! m) =
       party_words n (vec ?h1 (first ! m)) (vec ?h1 (first ! jf m)) (vec ?h1 (second ! m))
         (vec ?h1 (second ! jf m)) (vec ?h1 (r ! m)) (vec ?h1 (r ! jf m))"
    using okh1 rm(1) I
    by (auto intro!: mpc_and_party_effect)
  have u: "upd_only ((!) res ` set (ms @ [m]) \<union> {b}) h ?h'"
    using upd_only_trans[OF h1(1) eff(1)]
    by (rule upd_only_mono) auto
  have new: "vec ?h' (res ! m) = party_vec n h first second r m (jf m)"
    using eff(2) vI by (simp add: party_vec_def)
  have old: "vec ?h' (res ! m') = party_vec n h first second r m' (jf m')" if "m' \<in> set ms" for m'
  proof -
    have "res ! m' \<in> (!) res ` set ms"
      using that by simp
    then have "res ! m' \<notin> {res ! m, b}"
      using rm(2) pre(2) by auto
    then have "vec ?h' (res ! m') = vec ?h1 (res ! m')"
      by (rule upd_only_vec[OF eff(1)])
    then show ?thesis using h1(2) that by simp
  qed
  show ?case
    using u new old by (simp add: fold_append del: set_append) auto
qed

lemma nth_image_set: "length xs = n \<Longrightarrow> (!) xs ` {..<n} = set xs"
  by (auto simp: set_conv_nth)

lemma mpc_and_effect:
  assumes pre: "and_operands n h res first second r view buffer" and k: "viewshift < 64"
  shows "\<exists>h'. mpc_and res first second r view viewshift buffer h = Some h' \<and>
           upd_only (set res \<union> set buffer \<union> set (s view)) h h' \<and>
           (\<forall>m<SC_PROOF.
              vec h' (res ! m) = party_vec n h first second r m ((m + 1) mod SC_PROOF) \<and>
              vec h' (buffer ! m) =
                wshr n viewshift (party_vec n h first second r m ((m + 1) mod SC_PROOF)) \<and>
              vec h' (s view ! m) =
                wxor n (vec h (s view ! m))
                  (wshr n viewshift (party_vec n h first second r m ((m + 1) mod SC_PROOF))))"
proof -
  let ?b = "buffer ! 0"
  let ?sv = "s view"
  let ?jf = "\<lambda>m. (m + 1) mod SC_PROOF"
  let ?pv = "\<lambda>m. party_vec n h first second r m (?jf m)"
  from pre have len: "length res = 3" "length first = 3" "length second = 3" "length r = 3"
    "length buffer = 3" "length ?sv = 3"
    by (simp_all add: and_operands_def SC_PROOF_def)
  from pre have oks: "\<forall>p\<in>set res \<union> set first \<union> set second \<union> set r \<union> set buffer \<union> set ?sv.
                        vec_ok n h p"
    by (auto simp: and_operands_def list_all_iff)
  from pre have dis: "distinct res" "distinct buffer" "distinct ?sv"
    "set res \<inter> set buffer = {}" "set res \<inter> set ?sv = {}" "set buffer \<inter> set ?sv = {}"
    by (auto simp: and_operands_def)
  from pre have inp: "(set first \<union> set second \<union> set r) \<inter> (set res \<union> {?b}) = {}"
    by (auto simp: and_operands_def)
  have mem: "\<forall>m < 3. res ! m \<in> set res \<and> first ! m \<in> set first \<and>
               second ! m \<in> set second \<and> r ! m \<in> set r \<and> buffer ! m \<in> set buffer \<and>
               ?sv ! m \<in> set ?sv"
    using len by simp
  have bm: "?b \<in> set buffer" using len by simp
  have ms: "[0..<SC_PROOF] = [0, 1, 2]" by (simp add: SC_PROOF_def upt_rec)
  have jf3: "\<And>m. m \<in> set [0, 1, 2 :: nat] \<Longrightarrow> m < 3 \<and> ?jf m < 3"
    by (auto simp: SC_PROOF_def)
  define h3 where "h3 = fold (\<lambda>m h. mpc_and_party m (?jf m) res first second r ?b h) [0, 1, 2] h"
  have e3: "[0, 1, 2] = [0..<length res]"
    unfolding len(1) by (simp add: upt_rec)
  have d3: "distinct (map ((!) res) [0, 1, 2])"
    unfolding e3 map_nth by (rule dis(1))
  have img: "(!) res ` set [0, 1, 2] = set res"
    unfolding e3 by (simp only: set_map[symmetric] map_nth)
  have bnot: "?b \<notin> (!) res ` set [0, 1, 2]"
    unfolding img using dis(4) bm by auto
  have inputs: "\<forall>m\<in>set [0, 1, 2].
           \<forall>p\<in>{first ! m, first ! ?jf m, second ! m, second ! ?jf m, r ! m, r ! ?jf m}.
             vec_ok n h p \<and> p \<noteq> ?b \<and> p \<notin> (!) res ` set [0, 1, 2]"
    unfolding img
  proof (intro ballI)
    fix m p assume m: "m \<in> set [0, 1, 2 :: nat]"
      and p: "p \<in> {first ! m, first ! ?jf m, second ! m, second ! ?jf m, r ! m, r ! ?jf m}"
    from jf3[OF m] mem have "p \<in> set first \<union> set second \<union> set r"
      using p by auto
    then show "vec_ok n h p \<and> p \<noteq> ?b \<and> p \<notin> set res"
      using oks inp by auto
  qed
  have okres: "\<forall>m\<in>set [0, 1, 2]. vec_ok n h (res ! m)"
    using oks mem jf3 by auto
  have okb: "vec_ok n h ?b" using oks bm by auto
  from party_loop_effect[OF d3 bnot inputs okres okb]
  have h3: "upd_only (set res \<union> {?b}) h h3"
    "\<forall>m\<in>set [0, 1, 2]. vec h3 (res ! m) = ?pv m"
    unfolding img h3_def by blast+
  have ok3: "\<forall>i < 3. vec_ok n h3 (buffer ! i) \<and> vec_ok n h3 (res ! i)"
    using oks mem by (auto simp: upd_only_ok[OF h3(1)])
  have ne3: "\<forall>i < 3. \<forall>j < 3. buffer ! i \<noteq> res ! j"
    using dis(4) mem by (metis disjoint_iff)
  have di3: "\<forall>i < 3. \<forall>j < 3. i \<noteq> j \<longrightarrow> buffer ! i \<noteq> buffer ! j"
    using dis(2) len(5) by (auto simp: distinct_conv_nth)
  from mpc_shift_right_effect[OF k ok3 ne3 di3]
  obtain h6 where h6: "mpc_shift_right buffer res viewshift 3 h3 = Some h6"
    "upd_only (set buffer) h3 h6" "\<forall>i < 3. vec h6 (buffer ! i) = wshr n viewshift (vec h3 (res ! i))"
    unfolding nth_image_set[OF len(5)] by blast
  define h9 where "h9 = mpc_xor ?sv ?sv buffer 3 h6"
  have ok6: "\<forall>i < 3. vec_ok n h6 (?sv ! i) \<and> vec_ok n h6 (buffer ! i)"
    using oks mem by (auto simp: upd_only_ok[OF h6(2)] upd_only_ok[OF h3(1)])
  have ne6: "\<forall>i < 3. \<forall>j < 3. ?sv ! i \<noteq> buffer ! j"
    using dis(6) mem by (metis disjoint_iff)
  have di6: "\<forall>i < 3. \<forall>j < 3. i \<noteq> j \<longrightarrow> ?sv ! i \<noteq> ?sv ! j"
    using dis(3) len(6) by (auto simp: distinct_conv_nth)
  from mpc_xor_inplace_effect[OF ok6 ne6 di6]
  have h9: "upd_only (set ?sv) h6 h9"
    "\<forall>i < 3. vec h9 (?sv ! i) = wxor n (vec h6 (?sv ! i)) (vec h6 (buffer ! i))"
    unfolding nth_image_set[OF len(6)] h9_def by blast+
  have run: "mpc_and res first second r view viewshift buffer h = Some h9"
    unfolding mpc_and_def Let_def ms h3_def[symmetric]
    by (simp add: SC_PROOF_def h6(1) h9_def)
  have u: "upd_only (set res \<union> set buffer \<union> set ?sv) h h9"
    by (rule upd_only_mono[OF upd_only_trans[OF upd_only_trans[OF h3(1) h6(2)] h9(1)]])
       (use bm in auto)
  have vals: "vec h9 (res ! m) = ?pv m \<and> vec h9 (buffer ! m) = wshr n viewshift (?pv m) \<and>
              vec h9 (?sv ! m) = wxor n (vec h (?sv ! m)) (wshr n viewshift (?pv m))"
    if "m < 3" for m
  proof -
    from that have m012: "m \<in> set [0, 1, 2 :: nat]" by auto
    have r3: "vec h3 (res ! m) = ?pv m" using h3(2) m012 by blast
    from mem that have mm: "res ! m \<in> set res" "buffer ! m \<in> set buffer" "?sv ! m \<in> set ?sv"
      by blast+
    have dj: "\<And>x. x \<in> set res \<Longrightarrow> x \<notin> set buffer" "\<And>x. x \<in> set res \<Longrightarrow> x \<notin> set ?sv"
      "\<And>x. x \<in> set buffer \<Longrightarrow> x \<notin> set ?sv"
      using dis(4,5,6) by (simp_all add: disjoint_iff)
    have "res ! m \<notin> set buffer" "res ! m \<notin> set ?sv" "buffer ! m \<notin> set ?sv"
      "?sv ! m \<notin> set buffer" "?sv ! m \<notin> set res"  "?sv ! m \<noteq> ?b"
      using mm dj bm by metis+
    then have "res ! m \<notin> set buffer" "res ! m \<notin> set ?sv" "buffer ! m \<notin> set ?sv"
      "?sv ! m \<notin> set buffer" "?sv ! m \<notin> set res \<union> {?b}"
      by simp_all
    then have "vec h9 (res ! m) = vec h3 (res ! m)" "vec h9 (buffer ! m) = vec h6 (buffer ! m)"
      "vec h6 (?sv ! m) = vec h (?sv ! m)"
      by (simp_all add: upd_only_vec[OF h9(1)] upd_only_vec[OF h6(2)] upd_only_vec[OF h3(1)])
    then show ?thesis
      using r3 h6(3) h9(2) that by simp
  qed
  show ?thesis
    using run u vals by (auto simp: SC_PROOF_def)
qed

section \<open>The AND gate of the prover: the parties and the views\<close>

lemma and_not_zero: "x AND NOT m = 0 \<longleftrightarrow> x AND m = (x :: mword)"
  by (auto simp: bit_eq_iff bit_simps)

lemma padding_ok_clean: "vec_ok n h p \<Longrightarrow> padding_ok (mem h p) = clean n (vec h p)"
  using vec_okD[of n h p]
  by (simp add: padding_ok_def clean_def vec_def)

lemma clean_lastmask:
  assumes "clean n ws"
  shows "ws ! i AND lastmask n i = ws ! i"
proof (cases "Suc i = nwords n")
  case True
  then have "nwords n - 1 = i" by simp
  then show ?thesis
    using True assms by (simp add: clean_def lastmask_def and_not_zero)
next
  case False
  then show ?thesis by (simp add: lastmask_def)
qed

lemma formula_masked:
  fixes am aj bm bj rm rj m :: mword
  assumes "am AND m = am" "aj AND m = aj" "rm AND m = rm" "rj AND m = rj"
  shows "((am AND bm) XOR (aj AND bm) XOR (am AND bj) XOR rm XOR rj) AND m =
         (am AND bm) XOR (aj AND bm) XOR (am AND bj) XOR rm XOR rj"
proof -
  have c: "\<And>i. bit am i \<Longrightarrow> bit m i" "\<And>i. bit aj i \<Longrightarrow> bit m i"
    "\<And>i. bit rm i \<Longrightarrow> bit m i" "\<And>i. bit rj i \<Longrightarrow> bit m i"
    using assms by (metis bit_and_iff)+
  show ?thesis
    by (rule bit_word_eqI) (use c in \<open>auto simp: bit_simps\<close>)
qed

lemma party_words_clean:
  assumes "clean n am" "clean n aj" "clean n rm" "clean n rj"
  shows "party_words n am aj bm bj rm rj =
         map (\<lambda>i. (am ! i AND bm ! i) XOR (aj ! i AND bm ! i) XOR (am ! i AND bj ! i) XOR
                   rm ! i XOR rj ! i) [0..<nwords n]"
  unfolding party_words_def
  by (rule map_cong[OF refl]) (intro formula_masked clean_lastmask assms)

lemma bit_hmask: "bit (hmask n) i \<longleftrightarrow> (64 - n mod 64) mod 64 + i < 64"
  by (simp add: hmask_def M4RI_LEFT_BITMASK_def m4ri_radix_def m4ri_ffff_def bit_simps) arith

lemma clean_party_words:
  assumes "0 < nwords n"
  shows "clean n (party_words n am aj bm bj rm rj)"
  using assms by (simp add: clean_def party_words_def lastmask_def bit_eq_iff bit_simps)

lemma clean_wshr:
  assumes "0 < nwords n" "clean n xs"
  shows "clean n (wshr n k xs)"
proof -
  let ?x = "xs ! (nwords n - 1)"
  have x: "\<And>i. bit ?x i \<Longrightarrow> bit (hmask n) i"
    using assms(2) unfolding clean_def and_not_zero by (metis bit_and_iff)
  have "drop_bit k ?x AND NOT (hmask n) = 0"
  proof (rule bit_word_eqI)
    fix i assume "i < LENGTH(64)"
    show "bit (drop_bit k ?x AND NOT (hmask n)) i = bit (0 :: mword) i"
      using x[of "k + i"] by (auto simp: bit_simps bit_hmask)
  qed
  then show ?thesis
    using assms(1) by (simp add: clean_def wshr_def)
qed

lemma wxor_clean:
  assumes "clean n xs" "clean n ys"
  shows "wxor n xs ys = map (\<lambda>i. xs ! i XOR ys ! i) [0..<nwords n]"
  unfolding wxor_def
proof (rule map_cong[OF refl])
  fix i
  have "(xs ! i AND lastmask n i) XOR (ys ! i AND lastmask n i) = (xs ! i XOR ys ! i) AND lastmask n i"
    by (simp add: bit_eq_iff bit_simps) blast
  then show "(xs ! i XOR ys ! i) AND lastmask n i = xs ! i XOR ys ! i"
    by (simp add: clean_lastmask[OF assms(1)] clean_lastmask[OF assms(2)])
qed

lemma mk_heap_vec_ok:
  "p < length As \<Longrightarrow> As ! p = mk_mzd 1 c ws \<Longrightarrow> 0 < c \<Longrightarrow> vec_ok c (mk_heap As) p"
  by (simp add: mk_heap_def mk_mzd_def vec_ok_def mzd_wf_def mzd_flag_custom_layout_def
        mzd_flag_nonzero_excess_def)

lemma mk_heap_vec:
  "p < length As \<Longrightarrow> As ! p = mk_mzd 1 c ws \<Longrightarrow> length ws = nwords c \<Longrightarrow>
   vec (mk_heap As) p = ws"
  using calculate_rowstride_ge[of "nwords c"]
  by (simp add: mk_heap_def mk_mzd_def vec_def min_def)

text \<open>
  C2. On operands as \<open>and_operands\<close> describes them and for a shift count below
  \<open>W\<close>, \<^verbatim>\<open>mpc_and\<close> returns, and for every party \<open>m\<close> in \<open>{0, 1, 2}\<close> with
  \<open>j = (m + 1) mod 3\<close>: \<open>res[m]\<close> holds
  \<open>(a[m] AND b[m]) XOR (a[j] AND b[m]) XOR (a[m] AND b[j]) XOR r[m] XOR r[j]\<close> with the
  last word masked by the high bitmask, and \<open>view.s[m]\<close> holds its previous value XOR
  \<open>res[m]\<close> shifted right by \<open>viewshift\<close>, the last word masked. When the operands
  \<open>a\<close>, \<open>b\<close>, \<open>r\<close> satisfy the padding invariant the mask changes nothing and
  \<open>res[m]\<close> is the formula word by word; when \<open>view.s[m]\<close> satisfies it, the new
  view is the XOR word by word.
\<close>

theorem mpc_and_parties:
  assumes "and_operands n h res first second r view buffer" and "viewshift < 64"
    and "m < SC_PROOF"
  shows "\<exists>h'. mpc_and res first second r view viewshift buffer h = Some h' \<and>
     vec h' (res ! m) =
       party_words n (vec h (first ! m)) (vec h (first ! ((m + 1) mod 3)))
         (vec h (second ! m)) (vec h (second ! ((m + 1) mod 3)))
         (vec h (r ! m)) (vec h (r ! ((m + 1) mod 3))) \<and>
     vec h' (s view ! m) = wxor n (vec h (s view ! m)) (wshr n viewshift (vec h' (res ! m))) \<and>
     (list_all (\<lambda>p. padding_ok (mem h p)) (first @ second @ r) \<longrightarrow>
        vec h' (res ! m) =
          map (\<lambda>i. (vec h (first ! m) ! i AND vec h (second ! m) ! i) XOR
                    (vec h (first ! ((m + 1) mod 3)) ! i AND vec h (second ! m) ! i) XOR
                    (vec h (first ! m) ! i AND vec h (second ! ((m + 1) mod 3)) ! i) XOR
                    vec h (r ! m) ! i XOR vec h (r ! ((m + 1) mod 3)) ! i) [0..<nwords n]) \<and>
     (padding_ok (mem h (s view ! m)) \<longrightarrow>
        vec h' (s view ! m) =
          map (\<lambda>i. vec h (s view ! m) ! i XOR wshr n viewshift (vec h' (res ! m)) ! i)
            [0..<nwords n])"
proof -
  let ?j = "(m + 1) mod 3"
  from mpc_and_effect[OF assms(1,2)] assms(3)
  obtain h' where h': "mpc_and res first second r view viewshift buffer h = Some h'"
    "vec h' (res ! m) = party_vec n h first second r m ?j"
    "vec h' (s view ! m) = wxor n (vec h (s view ! m)) (wshr n viewshift (party_vec n h first second r m ?j))"
    by (auto simp: SC_PROOF_def)
  from assms(1) have len: "length res = 3" "length first = 3" "length second = 3" "length r = 3"
    "length (s view) = 3"
    by (simp_all add: and_operands_def SC_PROOF_def)
  from assms(1) have oks: "\<And>p. p \<in> set first \<union> set second \<union> set r \<union> set (s view) \<Longrightarrow> vec_ok n h p"
    by (auto simp: and_operands_def list_all_iff)
  have mj: "m < 3" "?j < 3" using assms(3) by (simp_all add: SC_PROOF_def)
  have inm: "first ! m \<in> set first" "first ! ?j \<in> set first" "second ! m \<in> set second"
    "second ! ?j \<in> set second" "r ! m \<in> set r" "r ! ?j \<in> set r" "s view ! m \<in> set (s view)"
    using len mj by simp_all
  have pos: "0 < nwords n" using vec_okD(4)[OF oks[of "first ! m"]] inm by simp
  have cres: "clean n (vec h' (res ! m))"
    unfolding h'(2) party_vec_def by (rule clean_party_words[OF pos])
  have exact: "vec h' (res ! m) =
          map (\<lambda>i. (vec h (first ! m) ! i AND vec h (second ! m) ! i) XOR
                    (vec h (first ! ?j) ! i AND vec h (second ! m) ! i) XOR
                    (vec h (first ! m) ! i AND vec h (second ! ?j) ! i) XOR
                    vec h (r ! m) ! i XOR vec h (r ! ?j) ! i) [0..<nwords n]"
    if "list_all (\<lambda>p. padding_ok (mem h p)) (first @ second @ r)"
  proof -
    from that have pads: "\<And>p. p \<in> set first \<union> set second \<union> set r \<Longrightarrow> padding_ok (mem h p)"
      by (auto simp: list_all_iff)
    have "clean n (vec h p)" if "p \<in> set first \<union> set second \<union> set r" for p
    proof -
      have "vec_ok n h p" using that by (intro oks) auto
      then show ?thesis using pads[OF that] by (simp add: padding_ok_clean)
    qed
    then have "clean n (vec h (first ! m))" "clean n (vec h (first ! ?j))"
      "clean n (vec h (r ! m))" "clean n (vec h (r ! ?j))"
      using inm by auto
    then show ?thesis
      unfolding h'(2) party_vec_def by (rule party_words_clean)
  qed
  have view: "vec h' (s view ! m) =
          map (\<lambda>i. vec h (s view ! m) ! i XOR wshr n viewshift (vec h' (res ! m)) ! i) [0..<nwords n]"
    if "padding_ok (mem h (s view ! m))"
  proof -
    have "clean n (vec h (s view ! m))"
      using that oks[of "s view ! m"] inm padding_ok_clean by auto
    moreover have "clean n (wshr n viewshift (vec h' (res ! m)))"
      by (rule clean_wshr[OF pos cres])
    ultimately show ?thesis
      using h'(2,3) by (simp add: wxor_clean)
  qed
  show ?thesis
    using h' exact view by (auto simp: party_vec_def)
qed

lemma gate_heap_ok:
  assumes "p < 18"
  shows "vec_ok (Suc 0) gate_heap p"
proof -
  let ?wss = "[[0], [0], [0], [1], [1], [1], [1], [1], [1], [0], [0], [0], [0], [0], [0], [0], [0],
               [0 :: mword]]"
  have len: "p < length (map (mk_mzd 1 1) ?wss)" using assms by simp
  have nth: "map (mk_mzd 1 1) ?wss ! p = mk_mzd 1 1 (?wss ! p)"
    by (rule nth_map) (use assms in simp)
  have "vec_ok 1 (mk_heap (map (mk_mzd 1 1) ?wss)) p"
    by (rule mk_heap_vec_ok[OF len nth]) simp
  then show ?thesis by (simp only: gate_heap_def One_nat_def)
qed

lemma nwords_1: "nwords (Suc 0) = Suc 0"
  by (simp add: nwords_def m4ri_radix_def)

lemma hmask_1: "hmask (Suc 0) = 1"
  by (simp add: hmask_def M4RI_LEFT_BITMASK_def m4ri_radix_def m4ri_ffff_def mask_eq_exp_minus_1)

lemma gate_heap_vec:
  "map (vec gate_heap) [0, Suc 0, 2] = [[0], [0], [0]]"
  "map (vec gate_heap) [3, 4, 5] = [[1], [1], [1]]"
  "map (vec gate_heap) [6, 7, 8] = [[1], [1], [1]]"
  "map (vec gate_heap) [9, 10, 11] = [[0], [0], [0]]"
  "map (vec gate_heap) [15, 16, 17] = [[0], [0], [0]]"
  by (simp_all add: gate_heap_def mk_heap_def mk_mzd_def vec_def nwords_1 calculate_rowstride_def
        avx_bound_def sizeof_word_def)

lemma gate_heap_operands:
  "and_operands (Suc 0) gate_heap [0, Suc 0, 2] [3, 4, 5] [6, 7, 8] [9, 10, 11] \<lparr>s = [15, 16, 17]\<rparr>
     [12, 13, 14]"
  by (simp add: and_operands_def SC_PROOF_def gate_heap_ok)

lemma gate_words:
  "party_words (Suc 0) [1] [1] [1] [1] [0] [0] = [1]" "wshr (Suc 0) 0 [1] = [1]"
  "wxor (Suc 0) [0] [1] = [1]"
  by (simp_all add: party_words_def wshr_def wxor_def nwords_1 lastmask_def hmask_1)

text \<open>
  The theorem on the spec's scenario, for the three parties: \<open>a\<close> and \<open>b\<close> are the
  plain shares of the one-column vector 1, \<open>r\<close> is zero and \<open>viewshift = 0\<close>; every
  party's \<open>res\<close> is the vector 1 and bit 0 of every view becomes 1.
\<close>

theorem mpc_and_parties_witness:
  "and_operands 1 gate_heap [0, 1, 2] [3, 4, 5] [6, 7, 8] [9, 10, 11] \<lparr>s = [15, 16, 17]\<rparr>
     [12, 13, 14] \<and>
   map (vec gate_heap) [3, 4, 5] = [[1], [1], [1]] \<and>
   map (vec gate_heap) [6, 7, 8] = [[1], [1], [1]] \<and>
   map (vec gate_heap) [9, 10, 11] = [[0], [0], [0]] \<and>
   map (vec gate_heap) [15, 16, 17] = [[0], [0], [0]] \<and>
   (\<exists>h'. mpc_and [0, 1, 2] [3, 4, 5] [6, 7, 8] [9, 10, 11] \<lparr>s = [15, 16, 17]\<rparr> 0 [12, 13, 14]
            gate_heap = Some h' \<and>
         map (vec h') [0, 1, 2] = [[1], [1], [1]] \<and>
         map (vec h') [15, 16, 17] = [[1], [1], [1]])"
proof -
  let ?run = "mpc_and [0, Suc 0, 2] [3, 4, 5] [6, 7, 8] [9, 10, 11] \<lparr>s = [15, 16, 17]\<rparr> 0
                [12, 13, 14] gate_heap"
  have k: "(0 :: nat) < 64" by simp
  have m: "(0 :: nat) < SC_PROOF" "Suc 0 < SC_PROOF" "(2 :: nat) < SC_PROOF"
    by (simp_all add: SC_PROOF_def)
  note th = mpc_and_parties[OF gate_heap_operands k]
  from th[OF m(1)] obtain h' where h': "?run = Some h'"
    and r0: "vec h' ([0, Suc 0, 2] ! 0) =
       party_words (Suc 0) (vec gate_heap ([3, 4, 5] ! 0)) (vec gate_heap ([3, 4, 5] ! ((0 + 1) mod 3)))
         (vec gate_heap ([6, 7, 8] ! 0)) (vec gate_heap ([6, 7, 8] ! ((0 + 1) mod 3)))
         (vec gate_heap ([9, 10, 11] ! 0)) (vec gate_heap ([9, 10, 11] ! ((0 + 1) mod 3)))"
    and s0: "vec h' (s \<lparr>s = [15, 16, 17]\<rparr> ! 0) =
       wxor (Suc 0) (vec gate_heap (s \<lparr>s = [15, 16, 17]\<rparr> ! 0))
         (wshr (Suc 0) 0 (vec h' ([0, Suc 0, 2] ! 0)))"
    by blast
  from th[OF m(2)] h'
  have r1: "vec h' ([0, Suc 0, 2] ! Suc 0) =
       party_words (Suc 0) (vec gate_heap ([3, 4, 5] ! Suc 0))
         (vec gate_heap ([3, 4, 5] ! ((Suc 0 + 1) mod 3)))
         (vec gate_heap ([6, 7, 8] ! Suc 0)) (vec gate_heap ([6, 7, 8] ! ((Suc 0 + 1) mod 3)))
         (vec gate_heap ([9, 10, 11] ! Suc 0)) (vec gate_heap ([9, 10, 11] ! ((Suc 0 + 1) mod 3)))"
    and s1: "vec h' (s \<lparr>s = [15, 16, 17]\<rparr> ! Suc 0) =
       wxor (Suc 0) (vec gate_heap (s \<lparr>s = [15, 16, 17]\<rparr> ! Suc 0))
         (wshr (Suc 0) 0 (vec h' ([0, Suc 0, 2] ! Suc 0)))"
    by auto
  from th[OF m(3)] h'
  have r2: "vec h' ([0, Suc 0, 2] ! 2) =
       party_words (Suc 0) (vec gate_heap ([3, 4, 5] ! 2)) (vec gate_heap ([3, 4, 5] ! ((2 + 1) mod 3)))
         (vec gate_heap ([6, 7, 8] ! 2)) (vec gate_heap ([6, 7, 8] ! ((2 + 1) mod 3)))
         (vec gate_heap ([9, 10, 11] ! 2)) (vec gate_heap ([9, 10, 11] ! ((2 + 1) mod 3)))"
    and s2: "vec h' (s \<lparr>s = [15, 16, 17]\<rparr> ! 2) =
       wxor (Suc 0) (vec gate_heap (s \<lparr>s = [15, 16, 17]\<rparr> ! 2))
         (wshr (Suc 0) 0 (vec h' ([0, Suc 0, 2] ! 2)))"
    by auto
  have v: "vec h' 0 = [1]" "vec h' (Suc 0) = [1]" "vec h' 2 = [1]"
    using r0 r1 r2 gate_heap_vec by (simp_all add: gate_words)
  have w: "vec h' 15 = [1]" "vec h' 16 = [1]" "vec h' 17 = [1]"
    using s0 s1 s2 gate_heap_vec by (simp_all add: v gate_words)
  show ?thesis
    using gate_heap_operands h' v w gate_heap_vec by simp
qed

section \<open>Reconstruction and the correctness of the AND gate\<close>

lemma mzd_local_init_ex_vec:
  assumes "0 < c"
  shows "fst (mzd_local_init_ex 1 c clear junk h) = brk h"
    and "vec_ok c (snd (mzd_local_init_ex 1 c clear junk h)) (brk h)"
    and "brk (snd (mzd_local_init_ex 1 c clear junk h)) = Suc (brk h)"
    and "\<And>q. q \<noteq> brk h \<Longrightarrow> mem (snd (mzd_local_init_ex 1 c clear junk h)) q = mem h q"
  using assms
  by (simp_all add: mzd_local_init_ex_def alloc_def Let_def vec_ok_def mzd_wf_def nwords_def
        hmask_def mzd_flag_custom_layout_def)

lemma wxor3:
  "wxor n (wxor n x0 x1) x2 = map (\<lambda>i. (x0 ! i XOR x1 ! i XOR x2 ! i) AND lastmask n i) [0..<nwords n]"
  by (rule nth_equalityI) (simp_all add: wxor_def mask_xor_absorb xor.assoc)

lemma mpc_reconstruct_None:
  assumes ok: "vec_ok n h (sv ! 0)" "vec_ok n h (sv ! Suc 0)" "vec_ok n h (sv ! 2)"
    and al: "sv ! 0 < brk h" "sv ! Suc 0 < brk h" "sv ! 2 < brk h"
  shows "fst (mpc_reconstruct_from_share None sv junk h) = brk h"
    and "vec (snd (mpc_reconstruct_from_share None sv junk h)) (brk h) =
           map (\<lambda>i. (vec h (sv ! 0) ! i XOR vec h (sv ! Suc 0) ! i XOR vec h (sv ! 2) ! i) AND
                     lastmask n i) [0..<nwords n]"
proof -
  note S0 = vec_okD[OF ok(1)]
  have pos: "0 < n" using ok(1) by (auto simp: vec_ok_def mzd_wf_def)
  define h1 where "h1 = snd (mzd_local_init_ex 1 n False junk h)"
  let ?d = "brk h"
  have a: "mzd_local_init_ex (nrows (mem h (sv ! 0))) (ncols (mem h (sv ! 0))) False junk h = (?d, h1)"
    using mzd_local_init_ex_vec(1)[OF pos, of False junk h]
    by (simp add: S0(5,6) h1_def prod_eq_iff)
  have d: "vec_ok n h1 ?d" unfolding h1_def by (rule mzd_local_init_ex_vec(2)[OF pos])
  have fr: "\<And>q. q \<noteq> ?d \<Longrightarrow> mem h1 q = mem h q"
    unfolding h1_def by (rule mzd_local_init_ex_vec(4)[OF pos])
  have ne: "sv ! 0 \<noteq> ?d" "sv ! Suc 0 \<noteq> ?d" "sv ! 2 \<noteq> ?d" using al by auto
  have ok1: "vec_ok n h1 (sv ! 0)" "vec_ok n h1 (sv ! Suc 0)" "vec_ok n h1 (sv ! 2)"
    using ok ne by (simp_all add: vec_ok_def fr)
  have v1: "vec h1 (sv ! 0) = vec h (sv ! 0)" "vec h1 (sv ! Suc 0) = vec h (sv ! Suc 0)"
    "vec h1 (sv ! 2) = vec h (sv ! 2)"
    using ne by (simp_all add: vec_def fr)
  let ?h2 = "put_row0 h1 ?d (wxor n (vec h (sv ! 0)) (vec h (sv ! Suc 0)))"
  have x1: "snd (mzd_xor (Some ?d) (sv ! 0) (sv ! Suc 0) h1) = ?h2"
    by (simp add: mzd_xor_vec[OF d ok1(1,2)] v1)
  note D = vec_okD[OF d]
  have ok2: "vec_ok n ?h2 ?d" "vec_ok n ?h2 (sv ! 2)"
    using d ok1(3) D(3) by (simp_all add: vec_ok_put_row0)
  have v2: "vec ?h2 ?d = wxor n (vec h (sv ! 0)) (vec h (sv ! Suc 0))" "vec ?h2 (sv ! 2) = vec h (sv ! 2)"
    using ne D(1) by (simp_all add: vec_put_row0 v1)
  have run: "mpc_reconstruct_from_share None sv junk h =
               (?d, put_row0 ?h2 ?d (wxor n (wxor n (vec h (sv ! 0)) (vec h (sv ! Suc 0))) (vec h (sv ! 2))))"
    by (simp add: mpc_reconstruct_from_share_def a x1 mzd_xor_vec[OF ok2(1) ok2(1) ok2(2)] v2)
  show "fst (mpc_reconstruct_from_share None sv junk h) = brk h"
    by (simp add: run)
  show "vec (snd (mpc_reconstruct_from_share None sv junk h)) (brk h) =
           map (\<lambda>i. (vec h (sv ! 0) ! i XOR vec h (sv ! Suc 0) ! i XOR vec h (sv ! 2) ! i) AND
                     lastmask n i) [0..<nwords n]"
    using D(1) by (simp add: run vec_put_row0 wxor3)
qed

lemma and_gate_word:
  fixes a0 a1 a2 b0 b1 b2 r0 r1 r2 :: mword
  shows "((a0 AND b0) XOR (a1 AND b0) XOR (a0 AND b1) XOR r0 XOR r1) XOR
         ((a1 AND b1) XOR (a2 AND b1) XOR (a1 AND b2) XOR r1 XOR r2) XOR
         ((a2 AND b2) XOR (a0 AND b2) XOR (a2 AND b0) XOR r2 XOR r0)
         = (a0 XOR a1 XOR a2) AND (b0 XOR b1 XOR b2)"
  by (rule bit_word_eqI) (auto simp: bit_simps)

lemma mask3:
  fixes x y z m :: mword
  shows "((x AND m) XOR (y AND m) XOR (z AND m)) AND m = (x XOR y XOR z) AND m"
  by (rule bit_word_eqI) (auto simp: bit_simps)

lemma mask_and2:
  fixes p q m :: mword
  shows "(p AND q) AND m = (p AND m) AND (q AND m)"
  by (rule bit_word_eqI) (auto simp: bit_simps)

lemma and_gate_masked:
  fixes a0 a1 a2 b0 b1 b2 r0 r1 r2 m :: mword
  shows "((((a0 AND b0) XOR (a1 AND b0) XOR (a0 AND b1) XOR r0 XOR r1) AND m) XOR
          (((a1 AND b1) XOR (a2 AND b1) XOR (a1 AND b2) XOR r1 XOR r2) AND m) XOR
          (((a2 AND b2) XOR (a0 AND b2) XOR (a2 AND b0) XOR r2 XOR r0) AND m)) AND m
         = ((a0 XOR a1 XOR a2) AND m) AND ((b0 XOR b1 XOR b2) AND m)"
proof -
  let ?A = "(a0 AND b0) XOR (a1 AND b0) XOR (a0 AND b1) XOR r0 XOR r1"
  let ?B = "(a1 AND b1) XOR (a2 AND b1) XOR (a1 AND b2) XOR r1 XOR r2"
  let ?C = "(a2 AND b2) XOR (a0 AND b2) XOR (a2 AND b0) XOR r2 XOR r0"
  have "((?A AND m) XOR (?B AND m) XOR (?C AND m)) AND m = (?A XOR ?B XOR ?C) AND m"
    by (rule mask3)
  also have "?A XOR ?B XOR ?C = (a0 XOR a1 XOR a2) AND (b0 XOR b1 XOR b2)"
    by (rule and_gate_word)
  also have "((a0 XOR a1 XOR a2) AND (b0 XOR b1 XOR b2)) AND m =
             ((a0 XOR a1 XOR a2) AND m) AND ((b0 XOR b1 XOR b2) AND m)"
    by (rule mask_and2)
  finally show ?thesis .
qed

lemma map2_upt: "map2 f (map g [0..<k]) (map h [0..<k]) = map (\<lambda>i. f (g i) (h i)) [0..<k]"
  by (rule nth_equalityI) simp_all

lemma map3_mask:
  fixes A B C lm :: "nat \<Rightarrow> mword"
  shows "map (\<lambda>i. (map (\<lambda>i. A i AND lm i) [0..<k] ! i XOR map (\<lambda>i. B i AND lm i) [0..<k] ! i XOR
                   map (\<lambda>i. C i AND lm i) [0..<k] ! i) AND lm i) [0..<k] =
         map (\<lambda>i. (A i XOR B i XOR C i) AND lm i) [0..<k]"
  by (rule nth_equalityI) (simp_all add: mask3)

text \<open>
  C1. On operands as \<open>and_operands\<close> describes them, allocated in the store, and for
  a shift count below \<open>W\<close>: \<^verbatim>\<open>mpc_and\<close> returns, and the reconstruction
  (\<^verbatim>\<open>mpc_reconstruct_from_share\<close>, the XOR of the three slots) of its result triple
  is the bitwise AND of the reconstructions \<open>x\<close> of \<open>a\<close> and \<open>y\<close> of \<open>b\<close>. Each
  mask \<open>r[m]\<close> enters two parties' results and cancels, so this holds for every mask
  triple, those that reconstruct to 0 among them.
\<close>

theorem mpc_and_reconstructs:
  assumes pre: "and_operands n h res first second r view buffer" and k: "viewshift < 64"
    and al: "list_all (\<lambda>p. p < brk h) (res @ first @ second)"
  shows "\<exists>h'. mpc_and res first second r view viewshift buffer h = Some h' \<and>
           (let (x, hx) = mpc_reconstruct_from_share None first jx h;
                (y, hy) = mpc_reconstruct_from_share None second jy h;
                (z, hz) = mpc_reconstruct_from_share None res jz h'
            in vec hz z = map2 (AND) (vec hx x) (vec hy y))"
proof -
  from mpc_and_effect[OF pre k]
  obtain h' where h': "mpc_and res first second r view viewshift buffer h = Some h'"
    "upd_only (set res \<union> set buffer \<union> set (s view)) h h'"
    "\<forall>m < SC_PROOF. vec h' (res ! m) = party_vec n h first second r m ((m + 1) mod SC_PROOF)"
    by blast
  from pre have len: "length res = 3" "length first = 3" "length second = 3"
    by (simp_all add: and_operands_def SC_PROOF_def)
  from pre have oks: "\<And>p. p \<in> set res \<union> set first \<union> set second \<Longrightarrow> vec_ok n h p"
    by (auto simp: and_operands_def list_all_iff)
  from al have als: "\<And>p. p \<in> set res \<union> set first \<union> set second \<Longrightarrow> p < brk h"
    by (auto simp: list_all_iff)
  have ix: "\<And>xs :: nat list. length xs = 3 \<Longrightarrow> xs ! 0 \<in> set xs \<and> xs ! Suc 0 \<in> set xs \<and> xs ! 2 \<in> set xs"
    by simp
  have okh': "\<And>p. vec_ok n h' p = vec_ok n h p" by (rule upd_only_ok[OF h'(2)])
  have brk': "brk h' = brk h" using h'(2) by (simp add: upd_only_def)
  have r: "vec h' (res ! 0) = party_vec n h first second r 0 (Suc 0)"
    "vec h' (res ! Suc 0) = party_vec n h first second r (Suc 0) 2"
    "vec h' (res ! 2) = party_vec n h first second r 2 0"
    using h'(3) by (simp_all add: SC_PROOF_def numeral_2_eq_2)
  have pos: "0 < nwords n" using vec_okD(4)[OF oks[of "res ! 0"]] ix[OF len(1)] by simp
  have X: "fst (mpc_reconstruct_from_share None first jx h) = brk h"
    "vec (snd (mpc_reconstruct_from_share None first jx h)) (brk h) =
       map (\<lambda>i. (vec h (first ! 0) ! i XOR vec h (first ! Suc 0) ! i XOR vec h (first ! 2) ! i) AND
                 lastmask n i) [0..<nwords n]"
    using ix[OF len(2)] by (auto intro!: mpc_reconstruct_None oks als)
  have Y: "fst (mpc_reconstruct_from_share None second jy h) = brk h"
    "vec (snd (mpc_reconstruct_from_share None second jy h)) (brk h) =
       map (\<lambda>i. (vec h (second ! 0) ! i XOR vec h (second ! Suc 0) ! i XOR vec h (second ! 2) ! i) AND
                 lastmask n i) [0..<nwords n]"
    using ix[OF len(3)] by (auto intro!: mpc_reconstruct_None oks als)
  have Z: "fst (mpc_reconstruct_from_share None res jz h') = brk h"
    "vec (snd (mpc_reconstruct_from_share None res jz h')) (brk h) =
       map (\<lambda>i. (vec h' (res ! 0) ! i XOR vec h' (res ! Suc 0) ! i XOR vec h' (res ! 2) ! i) AND
                 lastmask n i) [0..<nwords n]"
    using ix[OF len(1)] mpc_reconstruct_None[of n h' res jz] oks als
    by (simp_all add: okh' brk')
  have eq: "vec (snd (mpc_reconstruct_from_share None res jz h')) (brk h) =
            map2 (AND) (vec (snd (mpc_reconstruct_from_share None first jx h)) (brk h))
                       (vec (snd (mpc_reconstruct_from_share None second jy h)) (brk h))"
    unfolding X(2) Y(2) Z(2) r party_vec_def party_words_def map3_mask map2_upt and_gate_word
    by (rule map_cong[OF refl]) (rule mask_and2)
  show ?thesis
    using h'(1) eq X(1) Y(1) Z(1) by (simp add: split_beta)
qed

lemma gate_heap_brk: "brk gate_heap = 18"
  by (simp add: gate_heap_def mk_heap_def)

text \<open>
  The theorem on the shares of the one-column vector 1, with \<open>viewshift = 1\<close>:
  \<open>x = y = 1\<close> and the result triple reconstructs to 1.
\<close>

theorem mpc_and_reconstructs_witness:
  "and_operands 1 gate_heap [0, 1, 2] [3, 4, 5] [6, 7, 8] [9, 10, 11] \<lparr>s = [15, 16, 17]\<rparr>
     [12, 13, 14] \<and>
   list_all (\<lambda>p. p < brk gate_heap) ([0, 1, 2] @ [3, 4, 5] @ [6, 7, 8]) \<and>
   (\<exists>h'. mpc_and [0, 1, 2] [3, 4, 5] [6, 7, 8] [9, 10, 11] \<lparr>s = [15, 16, 17]\<rparr> 1 [12, 13, 14]
            gate_heap = Some h' \<and>
      (let (x, hx) = mpc_reconstruct_from_share None [3, 4, 5] (\<lambda>i. 7) gate_heap;
           (y, hy) = mpc_reconstruct_from_share None [6, 7, 8] (\<lambda>i. 7) gate_heap;
           (z, hz) = mpc_reconstruct_from_share None [0, 1, 2] (\<lambda>i. 7) h'
       in vec hx x = [1] \<and> vec hy y = [1] \<and> vec hz z = [1]))"
proof -
  have k: "Suc 0 < 64" by simp
  have al: "list_all (\<lambda>p. p < brk gate_heap) ([0, Suc 0, 2] @ [3, 4, 5] @ [6, 7, 8])"
    by (simp add: gate_heap_brk)
  have X: "fst (mpc_reconstruct_from_share None [3, 4, 5] (\<lambda>i. 7) gate_heap) = 18"
    "vec (snd (mpc_reconstruct_from_share None [3, 4, 5] (\<lambda>i. 7) gate_heap)) 18 = [1]"
    using mpc_reconstruct_None[of "Suc 0" gate_heap "[3, 4, 5]" "\<lambda>i. 7"] gate_heap_vec(2)
    by (simp_all add: gate_heap_ok gate_heap_brk nwords_1 lastmask_def hmask_1)
  have Y: "fst (mpc_reconstruct_from_share None [6, 7, 8] (\<lambda>i. 7) gate_heap) = 18"
    "vec (snd (mpc_reconstruct_from_share None [6, 7, 8] (\<lambda>i. 7) gate_heap)) 18 = [1]"
    using mpc_reconstruct_None[of "Suc 0" gate_heap "[6, 7, 8]" "\<lambda>i. 7"] gate_heap_vec(3)
    by (simp_all add: gate_heap_ok gate_heap_brk nwords_1 lastmask_def hmask_1)
  from mpc_and_reconstructs[OF gate_heap_operands k al, of "\<lambda>i. 7" "\<lambda>i. 7" "\<lambda>i. 7"]
  obtain h' where h': "mpc_and [0, Suc 0, 2] [3, 4, 5] [6, 7, 8] [9, 10, 11] \<lparr>s = [15, 16, 17]\<rparr>
                         (Suc 0) [12, 13, 14] gate_heap = Some h'"
    and z: "vec (snd (mpc_reconstruct_from_share None [0, Suc 0, 2] (\<lambda>i. 7) h'))
                (fst (mpc_reconstruct_from_share None [0, Suc 0, 2] (\<lambda>i. 7) h')) = [1]"
    by (auto simp: split_beta X Y)
  show ?thesis
    using gate_heap_operands al h' z by (simp add: split_beta X Y)
qed

section \<open>Sharing a secret vector\<close>

lemma mzd_local_init_multiple_ex_vec:
  assumes "0 < c"
  shows "fst (mzd_local_init_multiple_ex k 1 c clear junk h) = [brk h..<brk h + k] \<and>
         brk (snd (mzd_local_init_multiple_ex k 1 c clear junk h)) = brk h + k \<and>
         (\<forall>q. q < brk h \<longrightarrow> mem (snd (mzd_local_init_multiple_ex k 1 c clear junk h)) q = mem h q) \<and>
         (\<forall>p. brk h \<le> p \<and> p < brk h + k \<longrightarrow>
              vec_ok c (snd (mzd_local_init_multiple_ex k 1 c clear junk h)) p)"
proof (induction k)
  case 0
  then show ?case by auto
next
  case (Suc k)
  let ?r = "mzd_local_init_multiple_ex k 1 c clear junk h"
  let ?h1 = "snd ?r"
  let ?a = "mzd_local_init_ex 1 c clear (junk k) ?h1"
  have step: "mzd_local_init_multiple_ex (Suc k) 1 c clear junk h = (fst ?r @ [fst ?a], snd ?a)"
    by (simp add: split_beta Let_def)
  note A = mzd_local_init_ex_vec[OF assms, where clear = clear and junk = "junk k" and h = ?h1]
  from Suc.IH have ih: "fst ?r = [brk h..<brk h + k]" "brk ?h1 = brk h + k"
    "\<And>q. q < brk h \<Longrightarrow> mem ?h1 q = mem h q"
    "\<And>p. brk h \<le> p \<Longrightarrow> p < brk h + k \<Longrightarrow> vec_ok c ?h1 p"
    by blast+
  have ok: "vec_ok c (snd ?a) p" if "brk h \<le> p" "p < brk h + Suc k" for p
  proof (cases "p = brk h + k")
    case True
    then show ?thesis using A(2) ih(2) by simp
  next
    case False
    then have "p \<noteq> brk ?h1" "p < brk h + k" using that ih(2) by simp_all
    then show ?thesis using ih(4)[OF that(1)] A(4)[of p] by (simp add: vec_ok_def)
  qed
  have fr: "mem (snd ?a) q = mem h q" if "q < brk h" for q
  proof -
    have "q \<noteq> brk ?h1" using that ih(2) by simp
    then show ?thesis using A(4)[of q] ih(3)[OF that] by simp
  qed
  show ?case
    unfolding step using A(1,3) ih(1,2) ok fr
    by simp
qed

lemma mzd_randomize_ssl_vec:
  assumes v: "vec_ok n h val"
  shows "mzd_randomize_ssl val gen h =
           put_row0 h val (map (\<lambda>i. gen 0 i AND lastmask n i) [0..<nwords n])"
proof -
  let ?wd = "nwords n"
  let ?d = "data (mem h val)"
  note V = vec_okD[OF v]
  let ?D1 = "map (gen 0) [0..<?wd] @ drop ?wd ?d"
  have rb: "rand_bytes val 0 ?wd (gen 0) h = put_data h val ?D1"
    using fold_wr[of 0 ?wd h val "gen 0"] V(3) by (simp add: rand_bytes_def)
  have last: "rd (put_data h val ?D1) val (?wd - Suc 0) = gen 0 (?wd - Suc 0)"
    using V(4) by (simp add: rd_put nth_append)
  have upd: "?D1[?wd - Suc 0 := gen 0 (?wd - Suc 0) AND hmask n] =
             map (\<lambda>i. gen 0 i AND lastmask n i) [0..<?wd] @ drop ?wd ?d"
    using V(4) upd_last_map[of ?wd "gen 0" "\<lambda>i. gen 0 i AND hmask n"]
    by (simp add: list_update_append lastmask_def if_distrib[of "\<lambda>x. _ AND x"] cong: if_cong)
  have "wr (put_data h val ?D1) val (?wd - Suc 0)
          (rd (put_data h val ?D1) val (?wd - Suc 0) AND hmask n) =
        put_row0 h val (map (\<lambda>i. gen 0 i AND lastmask n i) [0..<?wd])"
    by (simp only: last wr_put data_put refl if_True upd put_put put_row0_def length_map length_upt
          diff_zero)
  then show ?thesis
    using V(4) by (simp add: mzd_randomize_ssl_def V(1,2,6) rb)
qed


lemma xor3_cancel:
  fixes s0 s1 v m :: mword
  assumes "v AND m = v"
  shows "((s0 AND m) XOR (s1 AND m) XOR v) AND m = (s0 AND m) XOR (s1 AND m) XOR v"
    and "((s0 AND m) XOR (s1 AND m) XOR ((s0 AND m) XOR (s1 AND m) XOR v)) AND m = v"
proof -
  have c: "\<And>i. bit v i \<Longrightarrow> bit m i" using assms by (metis bit_and_iff)
  show "((s0 AND m) XOR (s1 AND m) XOR v) AND m = (s0 AND m) XOR (s1 AND m) XOR v"
    by (rule bit_word_eqI) (use c in \<open>auto simp: bit_simps\<close>)
  show "((s0 AND m) XOR (s1 AND m) XOR ((s0 AND m) XOR (s1 AND m) XOR v)) AND m = v"
    by (rule bit_word_eqI) (use c in \<open>auto simp: bit_simps\<close>)
qed

lemma secret_heap_ok:
  "vec_ok 128 secret_heap 0" "0 < brk secret_heap" "padding_ok (mem secret_heap 0)"
  "vec secret_heap 0 = [0x0123456789abcdef, 0xfedcba9876543210]"
  by (simp_all add: secret_heap_def fixture_simps padding_ok_def rows_def)

lemma secret_words:
  "brk secret_heap = Suc 0"
  "map (\<lambda>i. (5 :: mword) AND lastmask 128 i) [0..<nwords 128] = [5, 5]"
  "map (\<lambda>i. (9 :: mword) AND lastmask 128 i) [0..<nwords 128] = [9, 9]"
  "nwords 128 = 2"
  by (simp_all add: secret_heap_def mk_heap_def consts_simps upt_rec)

text \<open>
  C4. \<^verbatim>\<open>mpc_init_share_vector\<close> (the spec's \<open>share_secret\<close>) on a secret vector \<open>v\<close>
  that satisfies the padding invariant returns three fresh vectors of the columns of
  \<open>v\<close>, at the addresses that the allocator hands out next. Whatever words the two
  calls of the random generator deliver (\<open>gen0\<close> and \<open>gen1\<close>) and whatever the
  allocator leaves in fresh memory: \<open>s0\<close> holds the words of \<open>gen0\<close> and \<open>s1\<close> the
  words of \<open>gen1\<close>, each with the last word masked by the high bitmask; \<open>s2\<close> is
  \<open>s0 XOR s1 XOR v\<close> word by word; reconstructing the triple with
  \<^verbatim>\<open>mpc_reconstruct_from_share\<close> gives the words of \<open>v\<close> exactly; and no matrix
  allocated before the call, \<open>v\<close> among them, is changed.
\<close>

theorem mpc_init_share_vector_reconstructs:
  assumes v: "vec_ok n h v" and al: "v < brk h" and pad: "padding_ok (mem h v)"
  shows "let (sv, h1) = mpc_init_share_vector v junk gen0 gen1 h;
             (x, hx) = mpc_reconstruct_from_share None sv junk' h1
         in length sv = 3 \<and> sv = [brk h, brk h + 1, brk h + 2] \<and>
            list_all (vec_ok n h1) sv \<and>
            vec h1 (sv ! 0) = map (\<lambda>i. gen0 0 i AND lastmask n i) [0..<nwords n] \<and>
            vec h1 (sv ! 1) = map (\<lambda>i. gen1 0 i AND lastmask n i) [0..<nwords n] \<and>
            vec h1 (sv ! 2) =
              map (\<lambda>i. vec h1 (sv ! 0) ! i XOR vec h1 (sv ! 1) ! i XOR vec h v ! i) [0..<nwords n] \<and>
            vec hx x = vec h v \<and>
            (\<forall>q. q < brk h \<longrightarrow> mem h1 q = mem h q)"
proof -
  note V = vec_okD[OF v]
  have pos: "0 < n" using v by (auto simp: vec_ok_def mzd_wf_def)
  have cl: "clean n (vec h v)" using pad by (simp add: padding_ok_clean[OF v])
  let ?b = "brk h"
  define h3 where "h3 = snd (mzd_local_init_multiple_ex 3 1 n False junk h)"
  from mzd_local_init_multiple_ex_vec[OF pos, of 3 False junk h]
  have a: "mzd_local_init_multiple_ex 3 1 n False junk h = ([?b, Suc ?b, Suc (Suc ?b)], h3)"
    and brk3: "brk h3 = ?b + 3"
    and fr3: "\<And>q. q < ?b \<Longrightarrow> mem h3 q = mem h q"
    and ok3: "vec_ok n h3 ?b" "vec_ok n h3 (Suc ?b)" "vec_ok n h3 (Suc (Suc ?b))"
    by (simp_all add: h3_def prod_eq_iff upt_rec[of "brk h"] upt_rec[of "Suc (brk h)"]
          upt_rec[of "Suc (Suc (brk h))"])
  have v3: "vec_ok n h3 v" "vec h3 v = vec h v" "mem h3 v = mem h v"
    using v fr3[OF al] by (simp_all add: vec_ok_def vec_def)
  have nes: "v \<noteq> ?b" "v \<noteq> Suc ?b" "v \<noteq> Suc (Suc ?b)" "?b \<noteq> v" "Suc ?b \<noteq> v" "Suc (Suc ?b) \<noteq> v"
    using al by simp_all
  let ?S0 = "map (\<lambda>i. gen0 0 i AND lastmask n i) [0..<nwords n]"
  let ?S1 = "map (\<lambda>i. gen1 0 i AND lastmask n i) [0..<nwords n]"
  let ?S2 = "wxor n (wxor n ?S0 ?S1) (vec h v)"
  let ?h4 = "put_row0 h3 ?b ?S0"
  let ?h5 = "put_row0 ?h4 (Suc ?b) ?S1"
  let ?h6 = "put_row0 ?h5 (Suc (Suc ?b)) (wxor n ?S0 ?S1)"
  let ?h7 = "put_row0 ?h6 (Suc (Suc ?b)) ?S2"
  note B0 = vec_okD[OF ok3(1)] and B1 = vec_okD[OF ok3(2)] and B2 = vec_okD[OF ok3(3)]
  note facts = vec_ok_put_row0 vec_put_row0 len_data_put_row0 B0(1,3) B1(1,3) B2(1,3) ok3 v3 nes
    mem_put_row0_other
  have s4: "mzd_randomize_ssl ?b gen0 h3 = ?h4"
    by (rule mzd_randomize_ssl_vec[OF ok3(1)])
  have s5: "mzd_randomize_ssl (Suc ?b) gen1 ?h4 = ?h5"
    by (rule mzd_randomize_ssl_vec) (simp add: facts)
  have s6: "snd (mzd_xor (Some (Suc (Suc ?b))) ?b (Suc ?b) ?h5) = ?h6"
    by (simp add: mzd_xor_vec[where n = n] facts)
  have s7: "snd (mzd_xor (Some (Suc (Suc ?b))) (Suc (Suc ?b)) v ?h6) = ?h7"
    by (simp add: mzd_xor_vec[where n = n] facts)
  have run: "mpc_init_share_vector v junk gen0 gen1 h = ([?b, Suc ?b, Suc (Suc ?b)], ?h7)"
    by (simp only: mpc_init_share_vector_def V(5) a[unfolded One_nat_def] split_conv Let_def
          nth_Cons_0 nth_Cons_Suc numeral_2_eq_2 One_nat_def s4 s5 s6 s7)
  have vals: "vec ?h7 ?b = ?S0" "vec ?h7 (Suc ?b) = ?S1" "vec ?h7 (Suc (Suc ?b)) = ?S2"
    "mem ?h7 v = mem h v"
    by (simp_all add: facts)
  have ok7: "vec_ok n ?h7 ?b" "vec_ok n ?h7 (Suc ?b)" "vec_ok n ?h7 (Suc (Suc ?b))"
    by (simp_all add: facts)
  have brk7: "brk ?h7 = ?b + 3" by (simp add: brk3)
  have lm: "\<And>i. vec h v ! i AND lastmask n i = vec h v ! i"
    by (rule clean_lastmask[OF cl])
  have S2: "?S2 = map (\<lambda>i. ?S0 ! i XOR ?S1 ! i XOR vec h v ! i) [0..<nwords n]"
    unfolding wxor3 by (rule map_cong[OF refl]) (simp add: xor3_cancel(1)[OF lm])
  define h7 where "h7 = ?h7"
  let ?sv = "[?b, Suc ?b, Suc (Suc ?b)]"
  have p: "vec_ok n h7 (?sv ! 0)" "vec_ok n h7 (?sv ! Suc 0)" "vec_ok n h7 (?sv ! 2)"
    "?sv ! 0 < brk h7" "?sv ! Suc 0 < brk h7" "?sv ! 2 < brk h7"
    using ok7 brk7 by (simp_all add: h7_def numeral_2_eq_2)
  have vals7: "vec h7 (?sv ! 0) = ?S0" "vec h7 (?sv ! Suc 0) = ?S1" "vec h7 (?sv ! 2) = ?S2"
    using vals(1-3) by (simp_all add: h7_def numeral_2_eq_2)
  note R = mpc_reconstruct_None[OF p, of junk']
  have "vec (snd (mpc_reconstruct_from_share None ?sv junk' h7)) (brk h7) =
        map (\<lambda>i. (?S0 ! i XOR ?S1 ! i XOR ?S2 ! i) AND lastmask n i) [0..<nwords n]"
    unfolding R(2) vals7 ..
  also have "\<dots> = map (\<lambda>i. vec h v ! i) [0..<nwords n]"
    unfolding S2 by (rule map_cong[OF refl]) (simp add: xor3_cancel(2)[OF lm])
  also have "\<dots> = vec h v"
    using map_nth[of "vec h v"] by (simp add: V(7))
  finally have rec2: "vec (snd (mpc_reconstruct_from_share None ?sv junk' h7)) (brk h7) = vec h v" .
  have rec1: "fst (mpc_reconstruct_from_share None ?sv junk' h7) = brk h7" by (rule R(1))
  have run7: "mpc_init_share_vector v junk gen0 gen1 h = (?sv, h7)"
    unfolding h7_def by (rule run)
  have vals': "vec h7 (Suc (Suc ?b)) =
      map (\<lambda>i. vec h7 ?b ! i XOR vec h7 (Suc ?b) ! i XOR vec h v ! i) [0..<nwords n]"
    "vec h7 ?b = ?S0" "vec h7 (Suc ?b) = ?S1"
    "vec_ok n h7 ?b" "vec_ok n h7 (Suc ?b)" "vec_ok n h7 (Suc (Suc ?b))"
    using vals S2 ok7 unfolding h7_def by simp_all
  have fr7: "\<And>q. q < ?b \<Longrightarrow> mem h7 q = mem h q"
    unfolding h7_def by (simp add: mem_put_row0_other fr3)
  show ?thesis
    using rec2 rec1 vals' fr7
    by (simp add: run7 split_beta numeral_2_eq_2)
qed

text \<open>
  The theorem at a 128-column secret, the only matrix of its store, with generators
  that deliver the constant words 5 and 9: the shares are the fresh vectors 1, 2 and 3
  holding \<open>[5, 5]\<close>, \<open>[9, 9]\<close> and the secret XOR \<open>[12, 12]\<close>.
\<close>

theorem mpc_init_share_vector_reconstructs_witness:
  "vec_ok 128 secret_heap 0 \<and> 0 < brk secret_heap \<and> padding_ok (mem secret_heap 0) \<and>
   (let (sv, h1) = mpc_init_share_vector 0 (\<lambda>p i. 7) (\<lambda>r i. 5) (\<lambda>r i. 9) secret_heap;
        (x, hx) = mpc_reconstruct_from_share None sv (\<lambda>i. 7) h1
    in sv = [1, 2, 3] \<and> vec h1 1 = [5, 5] \<and> vec h1 2 = [9, 9] \<and>
       vec h1 3 = [0x0123456789abcde3, 0xfedcba987654321c] \<and>
       vec hx x = [0x0123456789abcdef, 0xfedcba9876543210] \<and>
       mem h1 0 = mem secret_heap 0)"
  using mpc_init_share_vector_reconstructs[OF secret_heap_ok(1-3),
          of "\<lambda>p i. 7" "\<lambda>r i. 5" "\<lambda>r i. 9" "\<lambda>i. 7"] secret_heap_ok secret_words
  by (auto simp: split_beta Let_def numeral_2_eq_2 numeral_3_eq_3)

section \<open>The AND gate of the verifier\<close>

lemma take2: "2 \<le> length xs \<Longrightarrow> take 2 xs = [xs ! 0, xs ! 1]"
  by (cases xs; cases "tl xs") auto

lemma wand_clean:
  assumes "clean n ys"
  shows "wand n xs ys = map (\<lambda>i. xs ! i AND ys ! i) [0..<nwords n]"
  unfolding wand_def
proof (rule map_cong[OF refl])
  fix i
  have "(xs ! i AND ys ! i) AND lastmask n i = xs ! i AND (ys ! i AND lastmask n i)"
    by (simp add: and.assoc)
  then show "(xs ! i AND ys ! i) AND lastmask n i = xs ! i AND ys ! i"
    by (simp add: clean_lastmask[OF assms])
qed

lemma mpc_and_verify_effect:
  assumes op: "verify_operands n h res first second r view msk buffer" and k: "viewshift < 64"
  shows "\<exists>h'. mpc_and_verify res first second r view msk viewshift buffer h = Some h' \<and>
     vec h' (res ! 0) = party_vec n h first second r 0 1 \<and>
     vec h' (s view ! 0) =
       wxor n (vec h (s view ! 0)) (wshr n viewshift (party_vec n h first second r 0 1)) \<and>
     vec h' (res ! 1) = wand n (wshl n viewshift (vec h (s view ! 1))) (vec h msk) \<and>
     vec h' (s view ! 1) = vec h (s view ! 1) \<and> vec h' msk = vec h msk"
proof -
  let ?b = "buffer ! 0" and ?r0 = "res ! 0" and ?r1 = "res ! Suc 0"
  let ?v0 = "s view ! 0" and ?v1 = "s view ! Suc 0"
  from op have len: "2 \<le> length res" "2 \<le> length first" "2 \<le> length second" "2 \<le> length r"
    "2 \<le> length (s view)"
    by (simp_all add: verify_operands_def SC_VERIFY_def)
  note tk = take2[OF len(1)] take2[OF len(2)] take2[OF len(3)] take2[OF len(4)] take2[OF len(5)]
  from op have ok: "vec_ok n h ?r0" "vec_ok n h ?r1" "vec_ok n h (first ! 0)"
    "vec_ok n h (first ! Suc 0)" "vec_ok n h (second ! 0)" "vec_ok n h (second ! Suc 0)"
    "vec_ok n h (r ! 0)" "vec_ok n h (r ! Suc 0)" "vec_ok n h ?v0" "vec_ok n h ?v1"
    "vec_ok n h ?b" "vec_ok n h msk"
    by (simp_all add: verify_operands_def SC_VERIFY_def tk)
  from op have ne: "?r0 \<noteq> ?r1" "?r0 \<noteq> ?v0" "?r0 \<noteq> ?v1" "?r0 \<noteq> ?b" "?r1 \<noteq> ?v0" "?r1 \<noteq> ?v1"
    "?r1 \<noteq> ?b" "?v0 \<noteq> ?v1" "?v0 \<noteq> ?b" "?v1 \<noteq> ?b"
    "msk \<noteq> ?r0" "msk \<noteq> ?r1" "msk \<noteq> ?v0" "msk \<noteq> ?b"
    by (auto simp: verify_operands_def SC_VERIFY_def tk)
  from op have inp: "?r0 \<notin> {first ! 0, first ! Suc 0, second ! 0, second ! Suc 0, r ! 0, r ! Suc 0}"
    "?b \<notin> {first ! 0, first ! Suc 0, second ! 0, second ! Suc 0, r ! 0, r ! Suc 0}"
    by (auto simp: verify_operands_def SC_VERIFY_def tk)
  define h1 where "h1 = mpc_and_party 0 (Suc 0) res first second r ?b h"
  let ?P = "party_vec n h first second r 0 (Suc 0)"
  from mpc_and_party_effect[OF ok(1) ok(11) ok(3) ok(4) ok(5) ok(6) ok(7) ok(8) ne(4) inp]
  have u1: "upd_only {?r0, ?b} h h1" and p1: "vec h1 ?r0 = ?P"
    by (simp_all add: h1_def party_vec_def)
  note ok1 = ok[folded upd_only_ok[OF u1]]
  have v1: "vec h1 ?v0 = vec h ?v0" "vec h1 ?v1 = vec h ?v1" "vec h1 msk = vec h msk"
    using ne by (simp_all add: upd_only_vec[OF u1])
  note R0 = vec_okD[OF ok1(1)] and R1 = vec_okD[OF ok1(2)] and V0 = vec_okD[OF ok1(9)]
    and V1 = vec_okD[OF ok1(10)] and B = vec_okD[OF ok1(11)] and M = vec_okD[OF ok1(12)]
  note facts = vec_ok_put_row0 vec_put_row0 len_data_put_row0 mem_put_row0_other
    R0(1,3) R1(1,3) V0(1,3) V1(1,3) B(1,3) M(1,3) ok1 ne ne[symmetric] p1 v1
  let ?h2 = "put_row0 h1 ?b (wshr n viewshift ?P)"
  let ?h3 = "put_row0 ?h2 ?v0 (wxor n (vec h ?v0) (wshr n viewshift ?P))"
  let ?h4 = "put_row0 ?h3 ?r1 (wshl n viewshift (vec h ?v1))"
  let ?h5 = "put_row0 ?h4 ?r1 (wand n (wshl n viewshift (vec h ?v1)) (vec h msk))"
  have s2: "mzd_shift_right ?b ?r0 viewshift h1 = Some ?h2"
    by (simp add: mzd_shift_right_vec[OF k ok1(11) ok1(1)] p1)
  have s3: "snd (mzd_xor (Some ?v0) ?v0 ?b ?h2) = ?h3"
    by (simp add: mzd_xor_vec[where n = n] facts)
  have s4: "mzd_shift_left ?r1 ?v1 viewshift ?h3 = Some ?h4"
    by (simp add: mzd_shift_left_vec[OF k, where n = n] facts)
  have s5: "snd (mzd_and (Some ?r1) ?r1 msk ?h4) = ?h5"
    by (simp add: mzd_and_vec[where n = n] facts)
  have run: "mpc_and_verify res first second r view msk viewshift buffer h = Some ?h5"
    by (simp add: mpc_and_verify_def SC_VERIFY_def Let_def h1_def[symmetric] s2 s3 s4 s5)
  have "vec ?h5 ?r0 = ?P" "vec ?h5 ?v0 = wxor n (vec h ?v0) (wshr n viewshift ?P)"
    "vec ?h5 ?r1 = wand n (wshl n viewshift (vec h ?v1)) (vec h msk)"
    "vec ?h5 ?v1 = vec h ?v1" "vec ?h5 msk = vec h msk"
    by (simp_all add: facts)
  with run show ?thesis by simp
qed

lemma verify_heap_ok:
  assumes "p < 12"
  shows "vec_ok 64 verify_heap p"
proof -
  let ?wss = "[[0], [0], [3], [5], [6], [7], [1], [2], [0], [0], [6], [4 :: mword]]"
  have len: "p < length (map (mk_mzd 1 64) ?wss)" using assms by simp
  have nth: "map (mk_mzd 1 64) ?wss ! p = mk_mzd 1 64 (?wss ! p)"
    by (rule nth_map) (use assms in simp)
  have "vec_ok 64 (mk_heap (map (mk_mzd 1 64) ?wss)) p"
    by (rule mk_heap_vec_ok[OF len nth]) simp
  then show ?thesis by (simp only: verify_heap_def)
qed

lemma verify_heap_vec:
  "map (vec verify_heap) [2, 3, 4, 5, 6, 7] = [[3], [5], [6], [7], [1], [2]]"
  "map (vec verify_heap) [9, 10, 11] = [[0], [6], [4]]"
  "padding_ok (mem verify_heap 11)"
  by (simp_all add: verify_heap_def fixture_simps padding_ok_def rows_def)

lemma verify_heap_operands:
  "verify_operands 64 verify_heap [0, Suc 0] [2, 3] [4, 5] [6, 7] \<lparr>s = [9, 10]\<rparr> 11 [8]"
  by (simp add: verify_operands_def SC_VERIFY_def verify_heap_ok)

lemma verify_words:
  "party_words 64 [3] [5] [6] [7] [1] [2] = [6]" "wshr 64 (Suc 0) [6] = [3]"
  "wxor 64 [0] [3] = [3]" "wshl 64 (Suc 0) [6] = [12]" "wand 64 [12] [4] = [4]"
  by (simp_all add: party_words_def wshr_def wxor_def wshl_def wand_def consts_simps
        push_bit_eq_mult drop_bit_eq_div)

text \<open>
  C3. On operands as \<open>verify_operands\<close> describes them and for a shift count below
  \<open>W\<close>, \<^verbatim>\<open>mpc_and_verify\<close> returns, whatever the vectors hold: there is no path on
  which it stops early. Only \<open>res[0]\<close> is computed from the input shares, by the
  formula of the prover's gate for \<open>m = 0\<close>, \<open>j = 1\<close>; its value shifted right by
  \<open>viewshift\<close> is XORed into \<open>view.s[0]\<close>. The result of party \<open>SC_VERIFY - 1 = 1\<close> is
  read back from the view: \<open>view.s[1]\<close> shifted left by \<open>viewshift\<close> and ANDed with
  the mask (the last word masked by the high bitmask, which changes nothing when the
  mask satisfies the padding invariant); \<open>view.s[1]\<close> is left as it was.
\<close>

theorem mpc_and_verify_gate:
  assumes "verify_operands n h res first second r view msk buffer" and "viewshift < 64"
  shows "\<exists>h'. mpc_and_verify res first second r view msk viewshift buffer h = Some h' \<and>
     vec h' (res ! 0) =
       party_words n (vec h (first ! 0)) (vec h (first ! 1)) (vec h (second ! 0))
         (vec h (second ! 1)) (vec h (r ! 0)) (vec h (r ! 1)) \<and>
     vec h' (s view ! 0) = wxor n (vec h (s view ! 0)) (wshr n viewshift (vec h' (res ! 0))) \<and>
     vec h' (res ! (SC_VERIFY - 1)) =
       wand n (wshl n viewshift (vec h (s view ! (SC_VERIFY - 1)))) (vec h msk) \<and>
     (padding_ok (mem h msk) \<longrightarrow>
        vec h' (res ! (SC_VERIFY - 1)) =
          map (\<lambda>i. wshl n viewshift (vec h (s view ! (SC_VERIFY - 1))) ! i AND vec h msk ! i)
            [0..<nwords n]) \<and>
     vec h' (s view ! (SC_VERIFY - 1)) = vec h (s view ! (SC_VERIFY - 1))"
proof -
  from mpc_and_verify_effect[OF assms]
  obtain h' where h': "mpc_and_verify res first second r view msk viewshift buffer h = Some h'"
    "vec h' (res ! 0) = party_vec n h first second r 0 1"
    "vec h' (s view ! 0) =
       wxor n (vec h (s view ! 0)) (wshr n viewshift (party_vec n h first second r 0 1))"
    "vec h' (res ! 1) = wand n (wshl n viewshift (vec h (s view ! 1))) (vec h msk)"
    "vec h' (s view ! 1) = vec h (s view ! 1)"
    by blast
  from assms(1) have m: "vec_ok n h msk"
    by (simp add: verify_operands_def)
  have "vec h' (res ! 1) =
          map (\<lambda>i. wshl n viewshift (vec h (s view ! 1)) ! i AND vec h msk ! i) [0..<nwords n]"
    if "padding_ok (mem h msk)"
    unfolding h'(4) using that by (intro wand_clean) (simp add: padding_ok_clean[OF m])
  with h' show ?thesis
    by (simp add: SC_VERIFY_def party_vec_def)
qed

text \<open>
  The theorem with \<open>viewshift = 1\<close> on \<open>verify_heap\<close>: \<open>res[0] = 6\<close>, the view of party 0
  becomes \<open>0 XOR (6 >> 1) = 3\<close>, and \<open>res[1] = (6 << 1) AND 4 = 4\<close>.
\<close>

theorem mpc_and_verify_gate_witness:
  "verify_operands 64 verify_heap [0, 1] [2, 3] [4, 5] [6, 7] \<lparr>s = [9, 10]\<rparr> 11 [8] \<and>
   (1 :: nat) < 64 \<and>
   (\<exists>h'. mpc_and_verify [0, 1] [2, 3] [4, 5] [6, 7] \<lparr>s = [9, 10]\<rparr> 11 1 [8] verify_heap = Some h' \<and>
      vec h' 0 = [6] \<and> vec h' 9 = [3] \<and> vec h' 1 = [4] \<and> vec h' 10 = [6])"
proof -
  have k: "Suc 0 < 64" by simp
  from mpc_and_verify_gate[OF verify_heap_operands k]
  obtain h' where h': "mpc_and_verify [0, Suc 0] [2, 3] [4, 5] [6, 7] \<lparr>s = [9, 10]\<rparr> 11 (Suc 0) [8]
                         verify_heap = Some h'"
    and v: "vec h' 0 = [6]" "vec h' 9 = [3]" "vec h' (Suc 0) = [4]" "vec h' 10 = [6]"
    using verify_heap_vec by (auto simp: SC_VERIFY_def verify_words)
  show ?thesis
    using verify_heap_operands h' v by simp
qed

section \<open>The product of a vector and a matrix\<close>









lemma length_mul_v_ref [simp]: "length (mul_v_ref A vw) = nwords (ncols A)"
  by (simp add: mul_v_ref_def Let_def)








end
